theory Spec2Isabelle
  imports Complex_Main "HOL-Library.Multiset"
begin

section \<open>Conventions of the embedding\<close>

text \<open>
  The server (\<^verbatim>\<open>src/server/app.js\<close>) and the ingest script share one chunker; the
  server adds the cosine scorer, the top-K retriever, the confidence gate, the admin
  middleware and the index mutations.

  \<^item> JavaScript numbers that hold similarity scores and vector components are IEEE 754
    binary64 values, modelled by the type \<open>num\<close> of the next section: every operation
    rounds to the nearest representable value, overflows to an infinity, and propagates NaN.
  \<^item> JavaScript numbers that hold sizes, offsets and counts are modelled as \<^typ>\<open>int\<close> or
    \<^typ>\<open>nat\<close>.
  \<^item> Strings are lists of characters, a character being a code unit below 256;
    \<^verbatim>\<open>length\<close> counts list elements as JavaScript counts code units. The chunker is
    polymorphic in the element type.
  \<^item> Every call to an external service (embedding, completion, fetch) is a field of the
    record \<open>ext\<close>; a thrown error is \<open>Inl\<close> of its message. Each call is also appended to
    the trace \<open>calls\<close> of the server state, so that "the service was not called" is a
    statement about the state.
\<close>

section \<open>Numbers\<close>

text \<open>
  A binary64 value is a finite real of the form \<open>m * 2^e\<close> with \<open>|m| < 2^53\<close> and
  \<open>-1074 \<le> e \<le> 971\<close>, an infinity, or NaN. The two zeros are one value here: the
  program never divides by a zero and never inspects its sign.
\<close>

datatype num = Fin real | PInf | NInf | NaN

definition pow2 :: "int \<Rightarrow> real" where
  "pow2 e = (if 0 \<le> e then 2 ^ nat e else 1 / 2 ^ nat (- e))"

text \<open>Rounding a real to an integer, a tie going to the even neighbour.\<close>

definition rne :: "real \<Rightarrow> int" where
  "rne q = (let f = \<lfloor>q\<rfloor>; r = q - real_of_int f
            in if r < 1 / 2 then f else if 1 / 2 < r then f + 1 else if even f then f else f + 1)"

text \<open>
  The binary exponent of a real, the exponent of its unit in the last place (that of the
  subnormal range below \<open>2^-1022\<close>), and rounding to the nearest value with 53 significant
  bits. \<open>rnd\<close> is the result of an operation whose exact result is the given real: a
  rounded value of magnitude \<open>2^1024\<close> is an infinity.
\<close>

definition expo :: "real \<Rightarrow> int" where
  "expo x = \<lfloor>log 2 \<bar>x\<bar>\<rfloor>"

definition quantum :: "real \<Rightarrow> int" where
  "quantum x = max (expo x - 52) (- 1074)"

definition rnd_fin :: "real \<Rightarrow> real" where
  "rnd_fin x = (if x = 0 then 0 else real_of_int (rne (x / pow2 (quantum x))) * pow2 (quantum x))"

definition rnd :: "real \<Rightarrow> num" where
  "rnd x = (let y = rnd_fin x
            in if pow2 1024 \<le> y then PInf else if y \<le> - pow2 1024 then NInf else Fin y)"

text \<open>The operators \<^verbatim>\<open>-x\<close>, \<^verbatim>\<open>+\<close>, \<^verbatim>\<open>-\<close>, \<^verbatim>\<open>*\<close>, \<^verbatim>\<open>/\<close>, \<^verbatim>\<open>Math.sqrt\<close> and \<^verbatim>\<open><\<close>.\<close>

fun fneg :: "num \<Rightarrow> num" where
  "fneg (Fin x) = Fin (- x)"
| "fneg PInf = NInf"
| "fneg NInf = PInf"
| "fneg NaN = NaN"

fun fadd :: "num \<Rightarrow> num \<Rightarrow> num" where
  "fadd (Fin x) (Fin y) = rnd (x + y)"
| "fadd NaN b = NaN"
| "fadd a NaN = NaN"
| "fadd PInf NInf = NaN"
| "fadd NInf PInf = NaN"
| "fadd PInf b = PInf"
| "fadd a PInf = PInf"
| "fadd NInf b = NInf"
| "fadd a NInf = NInf"

definition fsub :: "num \<Rightarrow> num \<Rightarrow> num" where
  "fsub a b = fadd a (fneg b)"

definition inf_of :: "bool \<Rightarrow> num" where
  "inf_of positive = (if positive then PInf else NInf)"

fun fmul :: "num \<Rightarrow> num \<Rightarrow> num" where
  "fmul (Fin x) (Fin y) = rnd (x * y)"
| "fmul NaN b = NaN"
| "fmul a NaN = NaN"
| "fmul PInf (Fin y) = (if y = 0 then NaN else inf_of (0 < y))"
| "fmul NInf (Fin y) = (if y = 0 then NaN else inf_of (y < 0))"
| "fmul (Fin x) PInf = (if x = 0 then NaN else inf_of (0 < x))"
| "fmul (Fin x) NInf = (if x = 0 then NaN else inf_of (x < 0))"
| "fmul PInf PInf = PInf"
| "fmul NInf NInf = PInf"
| "fmul PInf NInf = NInf"
| "fmul NInf PInf = NInf"

fun fdiv :: "num \<Rightarrow> num \<Rightarrow> num" where
  "fdiv (Fin x) (Fin y) =
     (if y = 0 then (if x = 0 then NaN else inf_of (0 < x)) else rnd (x / y))"
| "fdiv NaN b = NaN"
| "fdiv a NaN = NaN"
| "fdiv (Fin x) PInf = Fin 0"
| "fdiv (Fin x) NInf = Fin 0"
| "fdiv PInf (Fin y) = inf_of (0 \<le> y)"
| "fdiv NInf (Fin y) = inf_of (y < 0)"
| "fdiv a b = NaN"

fun fsqrt :: "num \<Rightarrow> num" where
  "fsqrt (Fin x) = (if x < 0 then NaN else rnd (sqrt x))"
| "fsqrt PInf = PInf"
| "fsqrt NInf = NaN"
| "fsqrt NaN = NaN"

fun flt :: "num \<Rightarrow> num \<Rightarrow> bool" where
  "flt (Fin x) (Fin y) = (x < y)"
| "flt NaN b = False"
| "flt a NaN = False"
| "flt NInf NInf = False"
| "flt NInf b = True"
| "flt PInf b = False"
| "flt a PInf = True"
| "flt a NInf = False"

text \<open>
  A read of a numeric array as an operand: past the end of the array it is
  \<^verbatim>\<open>undefined\<close>, which arithmetic converts to NaN.
\<close>

definition nth_num :: "num list \<Rightarrow> nat \<Rightarrow> num" where
  "nth_num b i = (if i < length b then b ! i else NaN)"

text \<open>The finite numbers, and the real that a finite number is.\<close>

fun is_fin :: "num \<Rightarrow> bool" where
  "is_fin (Fin x) = True"
| "is_fin n = False"

fun fin_val :: "num \<Rightarrow> real" where
  "fin_val (Fin x) = x"
| "fin_val n = 0"

text \<open>
  Every finite binary64 value is a multiple of the least positive one, \<open>2^-1074\<close>; and the
  sums of squares that the scorer forms are never negative.
\<close>

definition on_grid :: "real \<Rightarrow> bool" where
  "on_grid x = (\<exists>m::int. x = real_of_int m * pow2 (- 1074))"

fun nonneg_num :: "num \<Rightarrow> bool" where
  "nonneg_num (Fin x) = (0 \<le> x \<and> x < pow2 1024)"
| "nonneg_num NInf = False"
| "nonneg_num n = True"

section \<open>Cosine similarity\<close>

text \<open>
  \<^verbatim>\<open>
  function cosine(a, b) {
    let dot = 0, na = 0, nb = 0;
    for (let i = 0; i < a.length; i++) {
      dot += a[i] * b[i];  na += a[i] * a[i];  nb += b[i] * b[i];
    }
    return dot / (Math.sqrt(na) * Math.sqrt(nb) + 1e-9);
  }
  \<close>
  The loop runs over the indices of \<open>a\<close>, so \<open>a ! i\<close> is a read within range and the read
  of \<open>b\<close> is \<open>nth_num\<close>. The literal \<^verbatim>\<open>1e-9\<close> is the binary64 value nearest to it.
\<close>

definition cosine_step :: "num list \<Rightarrow> num list \<Rightarrow> nat \<Rightarrow> num \<times> num \<times> num \<Rightarrow> num \<times> num \<times> num" where
  "cosine_step a b i acc =
     (case acc of (dot, na, nb) \<Rightarrow>
        (fadd dot (fmul (a ! i) (nth_num b i)),
         fadd na (fmul (a ! i) (a ! i)),
         fadd nb (fmul (nth_num b i) (nth_num b i))))"

definition cosine_sums :: "num list \<Rightarrow> num list \<Rightarrow> num \<times> num \<times> num" where
  "cosine_sums a b = fold (cosine_step a b) [0 ..< length a] (Fin 0, Fin 0, Fin 0)"

definition cosine :: "num list \<Rightarrow> num list \<Rightarrow> num" where
  "cosine a b =
     (case cosine_sums a b of (dot, na, nb) \<Rightarrow>
        fdiv dot (fadd (fmul (fsqrt na) (fsqrt nb)) (rnd (1 / 10 ^ 9))))"

section \<open>Chunker\<close>

text \<open>
  \<^verbatim>\<open>String.prototype.slice(start, end)\<close>: a negative index counts from the end, both
  indices are clamped to the string, and an empty string results when the end does not
  lie after the start.
\<close>

definition slice_js :: "'a list \<Rightarrow> int \<Rightarrow> int \<Rightarrow> 'a list" where
  "slice_js xs start fin =
     (let len = int (length xs);
          k = (if start < 0 then max (len + start) 0 else min start len);
          final = (if fin < 0 then max (len + fin) 0 else min fin len)
      in take (nat (final - k)) (drop (nat k) xs))"

text \<open>
  \<^verbatim>\<open>
  function chunkText(text, size = 800, overlap = 200) {
    const chunks = [];
    let i = 0;
    while (i < text.length) {
      const end = Math.min(text.length, i + size);
      const chunk = text.slice(i, end);
      chunks.push(chunk);
      i += (size - overlap);
    }
    return chunks;
  }
  \<close>
  The \<^verbatim>\<open>while\<close> loop is the partial function \<open>chunk_loop\<close>, over arrays that can grow
  without bound: its result is \<open>None\<close> when no number of iterations reaches the exit. The
  parameter \<open>size_c\<close> is the source's \<^verbatim>\<open>size\<close>.
\<close>

partial_function (option) chunk_loop ::
  "'a list \<Rightarrow> int \<Rightarrow> int \<Rightarrow> 'a list list \<Rightarrow> int \<Rightarrow> 'a list list option" where
  "chunk_loop text size_c overlap chunks i =
     (if i < int (length text)
      then (let fin = min (int (length text)) (i + size_c);
                chunk = slice_js text i fin
            in chunk_loop text size_c overlap (chunks @ [chunk]) (i + (size_c - overlap)))
      else Some chunks)"

definition chunkText :: "'a list \<Rightarrow> int \<Rightarrow> int \<Rightarrow> 'a list list option" where
  "chunkText text size_c overlap = chunk_loop text size_c overlap [] 0"

definition chunkText_default :: "'a list \<Rightarrow> 'a list list option" where
  "chunkText_default text = chunkText text 800 200"

text \<open>
  An array cannot grow without bound: \<^verbatim>\<open>chunks.push\<close> throws \<^verbatim>\<open>RangeError\<close> ("Invalid
  array length") when the array already holds as many elements as the engine allows,
  which by ECMAScript is at most \<open>2^32 - 1\<close>. \<open>chunk_loop_cap\<close> is the same loop with this
  bound \<open>cap\<close>; each iteration that does not throw makes the array longer, so the loop
  always ends.
\<close>

datatype js_error = RangeError

definition ARRAY_MAX_LENGTH :: nat where
  "ARRAY_MAX_LENGTH = 2 ^ 32 - 1"

function chunk_loop_cap ::
  "nat \<Rightarrow> 'a list \<Rightarrow> int \<Rightarrow> int \<Rightarrow> 'a list list \<Rightarrow> int \<Rightarrow> js_error + 'a list list" where
  "chunk_loop_cap cap text size_c overlap chunks i =
     (if i < int (length text)
      then (let fin = min (int (length text)) (i + size_c);
                chunk = slice_js text i fin
            in if cap \<le> length chunks then Inl RangeError
               else chunk_loop_cap cap text size_c overlap (chunks @ [chunk]) (i + (size_c - overlap)))
      else Inr chunks)"
  by pat_completeness auto
termination
  by (relation "measure (\<lambda>(cap, text, size_c, overlap, chunks, i). cap - length chunks)") auto

declare chunk_loop_cap.simps [simp del]

definition chunkText_cap :: "nat \<Rightarrow> 'a list \<Rightarrow> int \<Rightarrow> int \<Rightarrow> js_error + 'a list list" where
  "chunkText_cap cap text size_c overlap = chunk_loop_cap cap text size_c overlap [] 0"

text \<open>The window the loop cuts when its counter is \<open>i\<close>.\<close>

definition window :: "'a list \<Rightarrow> int \<Rightarrow> int \<Rightarrow> 'a list" where
  "window text size_c i = slice_js text i (min (int (length text)) (i + size_c))"

text \<open>
  The number of windows the loop cuts from a text of \<open>L\<close> characters when the counter
  advances by \<open>d\<close>, and the number of characters that chunk \<open>j\<close> holds from the
  offset \<open>d\<close> on, where chunk \<open>j + 1\<close> starts.
\<close>

definition n_windows :: "nat \<Rightarrow> int \<Rightarrow> nat" where
  "n_windows L d = nat ((int L + d - 1) div d)"

definition shared_with_next :: "'a list list \<Rightarrow> nat \<Rightarrow> nat \<Rightarrow> nat" where
  "shared_with_next cs d j = length (drop d (cs ! j))"

text \<open>
  The chunk count as section 8 of the specification words it: \<open>ceil((L - O) / (S - O))\<close>
  for \<open>L > O\<close>, else one chunk, or none for \<open>L = 0\<close>.
\<close>

definition spec_chunk_count :: "nat \<Rightarrow> int \<Rightarrow> int \<Rightarrow> nat" where
  "spec_chunk_count L S O' =
     (if L = 0 then 0
      else if int L \<le> O' then 1
      else nat \<lceil>real_of_int (int L - O') / real_of_int (S - O')\<rceil>)"

section \<open>Data model\<close>

text \<open>
  An index record as \<^verbatim>\<open>embedAndAppend\<close> builds it:
  \<^verbatim>\<open>{ id, source, type, text, embedding }\<close>. The fields \<^verbatim>\<open>id\<close>, \<^verbatim>\<open>type\<close> and \<^verbatim>\<open>text\<close> carry the
  suffix \<open>_f\<close>. A scored record is \<^verbatim>\<open>{ ...it, score }\<close>.
\<close>

datatype src_type = File | Url

record IndexRecord =
  id_f :: string
  source :: string
  type_f :: src_type
  text_f :: string
  embedding :: "num list"

record ScoredRecord = IndexRecord +
  score :: num

text \<open>
  The environment of the process: the two thresholds and the admin token. A threshold is
  what \<^verbatim>\<open>parseFloat\<close> makes of its string, by default the binary64 values nearest to 0.78
  and 0.72.
  \<^verbatim>\<open>
  const MIN_TOP_SIM = parseFloat(process.env.MIN_TOP_SIM || '0.78');
  const MIN_AVG_TOP3 = parseFloat(process.env.MIN_AVG_TOP3 || '0.72');
  const ADMIN_TOKEN = process.env.ADMIN_TOKEN || '';
  \<close>
\<close>

record config =
  MIN_TOP_SIM :: num
  MIN_AVG_TOP3 :: num
  ADMIN_TOKEN :: string

definition default_config :: "string \<Rightarrow> config" where
  "default_config tok =
     \<lparr>MIN_TOP_SIM = rnd (78 / 100), MIN_AVG_TOP3 = rnd (72 / 100), ADMIN_TOKEN = tok\<rparr>"

text \<open>
  The external services. \<open>complete_api\<close> receives the message and the retrieved records,
  from which the handler builds both prompts; \<open>fetchText_api\<close> stands for
  \<^verbatim>\<open>fetchPdfText\<close> and \<^verbatim>\<open>fetchHtmlText\<close>, between which the URL alone chooses.
  \<open>sort_impl\<close> belongs to the JavaScript engine: it is the order in which
  \<^verbatim>\<open>Array.prototype.sort\<close> leaves the scored records when the comparator is not a
  consistent comparison function, an order that ECMAScript leaves to the implementation.
\<close>

record ext =
  embed_api :: "string list \<Rightarrow> string + num list list"
  embedQuery_api :: "string \<Rightarrow> string + num list"
  complete_api :: "string \<Rightarrow> ScoredRecord list \<Rightarrow> string + string"
  fetchText_api :: "string \<Rightarrow> string + string"
  sort_impl :: "ScoredRecord list \<Rightarrow> ScoredRecord list"

datatype ext_call =
    EmbedCall "string list"
  | EmbedQueryCall string
  | CompleteCall string "ScoredRecord list"
  | FetchCall string

text \<open>
  The state of the server: \<^verbatim>\<open>INDEX.items\<close>, the copy that \<^verbatim>\<open>saveIndex\<close> last wrote to
  \<^verbatim>\<open>data/index.json\<close>, and the trace of external calls.
\<close>

record server =
  items :: "IndexRecord list"
  disk :: "IndexRecord list"
  calls :: "ext_call list"

definition saveIndex :: "server \<Rightarrow> server" where
  "saveIndex st = st\<lparr>disk := items st\<rparr>"

definition log_call :: "ext_call \<Rightarrow> server \<Rightarrow> server" where
  "log_call c st = st\<lparr>calls := calls st @ [c]\<rparr>"

text \<open>Responses: the HTTP status and the JSON body.\<close>

record source_ref =
  ref_id :: nat
  ref_source :: string
  ref_score :: num

datatype body =
    ErrorBody string
  | ChatBody string "source_ref list"
  | RemovedBody int
  | IndexedBody nat
  | RebuiltBody nat

record response =
  status :: nat
  payload :: body

definition json :: "body \<Rightarrow> response" where
  "json b = \<lparr>status = 200, payload = b\<rparr>"

definition status_json :: "nat \<Rightarrow> body \<Rightarrow> response" where
  "status_json c b = \<lparr>status = c, payload = b\<rparr>"

section \<open>Index mutations\<close>

text \<open>
  The decimal numeral that a template literal prints for an array index.
\<close>

definition digit :: "nat \<Rightarrow> char" where
  "digit d = ''0123456789'' ! d"

fun show_nat :: "nat \<Rightarrow> string" where
  "show_nat n = (if n < 10 then [digit n] else show_nat (n div 10) @ [digit (n mod 10)])"

declare show_nat.simps [simp del]

record meta =
  idPrefix :: string
  meta_source :: string
  meta_type :: src_type

text \<open>
  \<^verbatim>\<open>
  async function embedAndAppend(chunks, meta){
    if (!chunks.length) return 0;
    const embs = await embed(chunks);
    for (let i = 0; i < chunks.length; i++) {
      INDEX.items.push({ id: `${meta.idPrefix}::${i}`, source: meta.source,
        type: meta.type, text: chunks[i], embedding: embs[i] });
    }
    saveIndex();
    return chunks.length;
  }
  \<close>
  The embedding client answers with one vector per input text, so \<open>embs ! i\<close> is a read
  within range.
\<close>

definition new_record :: "meta \<Rightarrow> string list \<Rightarrow> num list list \<Rightarrow> nat \<Rightarrow> IndexRecord" where
  "new_record m chunks embs i =
     \<lparr>id_f = idPrefix m @ ''::'' @ show_nat i, source = meta_source m, type_f = meta_type m,
      text_f = chunks ! i, embedding = embs ! i\<rparr>"

definition embedAndAppend :: "ext \<Rightarrow> server \<Rightarrow> string list \<Rightarrow> meta \<Rightarrow> server \<times> (string + nat)" where
  "embedAndAppend x st chunks m =
     (if chunks = [] then (st, Inr 0)
      else (case embed_api x chunks of
              Inl e \<Rightarrow> (log_call (EmbedCall chunks) st, Inl e)
            | Inr embs \<Rightarrow>
                (let st1 = log_call (EmbedCall chunks) st;
                     st2 = st1\<lparr>items := items st1 @ map (new_record m chunks embs) [0 ..< length chunks]\<rparr>
                 in (saveIndex st2, Inr (length chunks)))))"

text \<open>
  \<^verbatim>\<open>String.prototype.trim\<close> strips white space and line terminators from both ends. The
  code units below 256 among them are the tab, the line feed, the vertical tab, the form
  feed, the carriage return, the space and the no-break space.
\<close>

definition is_space :: "char \<Rightarrow> bool" where
  "is_space c =
     (c \<in> set [CHR 0x09, CHR 0x0A, CHR 0x0B, CHR 0x0C, CHR 0x0D, CHR 0x20, CHR 0xA0])"

definition trim :: "string \<Rightarrow> string" where
  "trim s = rev (dropWhile is_space (rev (dropWhile is_space s)))"

text \<open>
  \<^verbatim>\<open>
  app.post('/api/admin/add-url', requireAdmin, async (req, res) => {
    try {
      const url = (req.body?.url || '').trim();
      if (!url) return res.status(400).json({ error: 'url required' });
      let text = '';
      if (url.toLowerCase().endsWith('.pdf')) text = await fetchPdfText(url);
      else text = await fetchHtmlText(url);
      const chunks = chunkText(text);
      const added = await embedAndAppend(chunks, { idPrefix: `url:${url}`, source: url, type: 'url' });
      ...
      res.json({ ok: true, indexed: added });
    } catch (e) { res.status(500).json({ error: e.message }); }
  });
  \<close>
  The handler after the middleware. The bookkeeping of \<^verbatim>\<open>ingest/urls.txt\<close>, which does not
  touch the index, is left out. The result is \<open>None\<close> when the chunker does not return.
\<close>

definition add_url :: "ext \<Rightarrow> string option \<Rightarrow> server \<Rightarrow> (server \<times> response) option" where
  "add_url x body_url st =
     (let url = trim (case body_url of None \<Rightarrow> [] | Some u \<Rightarrow> u)
      in if url = [] then Some (st, status_json 400 (ErrorBody ''url required''))
         else (case fetchText_api x url of
                 Inl e \<Rightarrow> Some (log_call (FetchCall url) st, status_json 500 (ErrorBody e))
               | Inr text \<Rightarrow>
                   (case chunkText_default text of
                      None \<Rightarrow> None
                    | Some chunks \<Rightarrow>
                        (case embedAndAppend x (log_call (FetchCall url) st) chunks
                                \<lparr>idPrefix = ''url:'' @ url, meta_source = url, meta_type = Url\<rparr> of
                           (st', Inl e) \<Rightarrow> Some (st', status_json 500 (ErrorBody e))
                         | (st', Inr added) \<Rightarrow> Some (st', json (IndexedBody added))))))"

text \<open>
  \<^verbatim>\<open>
  app.delete('/api/admin/source', requireAdmin, async (req, res) => {
    const source = req.query.source || '';
    if (!source) return res.status(400).json({ error: 'source query required' });
    const before = INDEX.items.length;
    INDEX.items = INDEX.items.filter(it => it.source !== source);
    saveIndex();
    res.json({ removed: before - INDEX.items.length });
  });
  \<close>
\<close>

definition delete_source :: "string option \<Rightarrow> server \<Rightarrow> server \<times> response" where
  "delete_source query_source st =
     (let src = (case query_source of None \<Rightarrow> [] | Some s \<Rightarrow> s)
      in if src = [] then (st, status_json 400 (ErrorBody ''source query required''))
         else (let before = int (length (items st));
                   st1 = st\<lparr>items := filter (\<lambda>it. source it \<noteq> src) (items st)\<rparr>;
                   st2 = saveIndex st1
               in (st2, json (RemovedBody (before - int (length (items st2)))))))"

text \<open>
  \<^verbatim>\<open>
  app.post('/api/admin/upload', requireAdmin, upload.array('files', 10), async (req, res) => {
    try {
      if (!req.files || !req.files.length) return res.status(400).json({ error: 'no files' });
      let total = 0;
      for (const f of req.files) {
        const safeName = Date.now() + '-' + f.originalname.replace(/[^\w\.\-\u0600-\u06FF]/g, '_');
        fs.writeFileSync(path.join(FILES_DIR, safeName), f.buffer);
        const text = await readTextFromBuffer(f.buffer, f.originalname);
        const chunks = chunkText(text);
        const added = await embedAndAppend(chunks, { idPrefix: `file:${safeName}`, source: safeName, type: 'file' });
        total += added;
      }
      res.json({ ok: true, indexed: total });
    } catch (e) { res.status(500).json({ error: e.message }); }
  });
  \<close>
  An uploaded file is given by the name the handler forms for it from the clock and the
  original name, and by what \<^verbatim>\<open>readTextFromBuffer\<close> makes of its bytes: the text, or the
  message of the error the PDF parser throws. The counter \<open>total_n\<close> is the source's \<^verbatim>\<open>total\<close>. The backup copy in \<^verbatim>\<open>ingest/files\<close> is not
  part of the state.
\<close>

record upfile =
  safeName :: string
  extracted :: "string + string"

fun upload_loop :: "ext \<Rightarrow> upfile list \<Rightarrow> nat \<Rightarrow> server \<Rightarrow> (server \<times> (string + nat)) option" where
  "upload_loop x [] total_n st = Some (st, Inr total_n)"
| "upload_loop x (f # fs) total_n st =
     (case extracted f of
        Inl e \<Rightarrow> Some (st, Inl e)
      | Inr text \<Rightarrow>
          (case chunkText_default text of
             None \<Rightarrow> None
           | Some chunks \<Rightarrow>
               (case embedAndAppend x st chunks
                       \<lparr>idPrefix = ''file:'' @ safeName f, meta_source = safeName f, meta_type = File\<rparr> of
                  (st', Inl e) \<Rightarrow> Some (st', Inl e)
                | (st', Inr added) \<Rightarrow> upload_loop x fs (total_n + added) st')))"

definition upload :: "ext \<Rightarrow> upfile list \<Rightarrow> server \<Rightarrow> (server \<times> response) option" where
  "upload x files st =
     (if files = [] then Some (st, status_json 400 (ErrorBody ''no files''))
      else (case upload_loop x files 0 st of
              None \<Rightarrow> None
            | Some (st', Inl e) \<Rightarrow> Some (st', status_json 500 (ErrorBody e))
            | Some (st', Inr total_n) \<Rightarrow> Some (st', json (IndexedBody total_n))))"

text \<open>
  \<^verbatim>\<open>
  async function rebuildFromDisk(){
    const items = [];
    if (fs.existsSync(URLS_FILE)) {
      const lines = fs.readFileSync(URLS_FILE, 'utf-8').split(/\r?\n/).map(s => s.trim())
                      .filter(Boolean).filter(x => !x.startsWith('#'));
      for (const url of lines) {
        try {
          const isPdf = url.toLowerCase().endsWith('.pdf');
          const text = isPdf ? await fetchPdfText(url) : await fetchHtmlText(url);
          const chunks = chunkText(text);
          const embs = await embed(chunks);
          for (let i = 0; i < chunks.length; i++)
            items.push({ id: `url:${url}::${i}`, source: url, type: 'url', text: chunks[i], embedding: embs[i] });
        } catch (e) { console.error('URL rebuild failed', url, e.message); }
      }
    }
    if (fs.existsSync(FILES_DIR)) {
      const files = fs.readdirSync(FILES_DIR);
      for (const name of files) {
        const fp = path.join(FILES_DIR, name);
        if (!fs.statSync(fp).isFile()) continue;
        try {
          const buf = fs.readFileSync(fp);
          const text = await readTextFromBuffer(buf, name);
          const chunks = chunkText(text);
          const embs = await embed(chunks);
          for (let i = 0; i < chunks.length; i++)
            items.push({ id: `file:${name}::${i}`, source: name, type: 'file', text: chunks[i], embedding: embs[i] });
        } catch (e) { console.error('File rebuild failed', name, e.message); }
      }
    }
    INDEX = { items };
    saveIndex();
    return items.length;
  }
  \<close>
  The disk is given by the lines of \<^verbatim>\<open>ingest/urls.txt\<close> that remain after trimming and
  dropping empty lines and comments (none when the file is absent), and by the entries of
  \<^verbatim>\<open>ingest/files\<close>. The identifier \<^verbatim>\<open>`url:${url}::${i}`\<close> is \<^verbatim>\<open>`${idPrefix}::${i}`\<close> for the
  prefix \<^verbatim>\<open>`url:${url}`\<close>, so \<open>new_record\<close> serves here too. The accumulator \<open>acc\<close> is the
  local array \<^verbatim>\<open>items\<close>; the state collects the external calls.
\<close>

record dir_entry =
  entry_name :: string
  isFile :: bool
  entry_text :: "string + string"

fun rebuild_urls :: "ext \<Rightarrow> string list \<Rightarrow> server \<Rightarrow> IndexRecord list \<Rightarrow> (server \<times> IndexRecord list) option" where
  "rebuild_urls x [] st acc = Some (st, acc)"
| "rebuild_urls x (url # rest) st acc =
     (case fetchText_api x url of
        Inl e \<Rightarrow> rebuild_urls x rest (log_call (FetchCall url) st) acc
      | Inr text \<Rightarrow>
          (case chunkText_default text of
             None \<Rightarrow> None
           | Some chunks \<Rightarrow>
               (case embed_api x chunks of
                  Inl e \<Rightarrow> rebuild_urls x rest (log_call (EmbedCall chunks) (log_call (FetchCall url) st)) acc
                | Inr embs \<Rightarrow>
                    rebuild_urls x rest (log_call (EmbedCall chunks) (log_call (FetchCall url) st))
                      (acc @ map (new_record \<lparr>idPrefix = ''url:'' @ url, meta_source = url, meta_type = Url\<rparr>
                                    chunks embs) [0 ..< length chunks]))))"

fun rebuild_files :: "ext \<Rightarrow> dir_entry list \<Rightarrow> server \<Rightarrow> IndexRecord list \<Rightarrow> (server \<times> IndexRecord list) option" where
  "rebuild_files x [] st acc = Some (st, acc)"
| "rebuild_files x (f # rest) st acc =
     (if \<not> isFile f then rebuild_files x rest st acc
      else (case entry_text f of
              Inl e \<Rightarrow> rebuild_files x rest st acc
            | Inr text \<Rightarrow>
                (case chunkText_default text of
                   None \<Rightarrow> None
                 | Some chunks \<Rightarrow>
                     (case embed_api x chunks of
                        Inl e \<Rightarrow> rebuild_files x rest (log_call (EmbedCall chunks) st) acc
                      | Inr embs \<Rightarrow>
                          rebuild_files x rest (log_call (EmbedCall chunks) st)
                            (acc @ map (new_record \<lparr>idPrefix = ''file:'' @ entry_name f,
                                          meta_source = entry_name f, meta_type = File\<rparr>
                                          chunks embs) [0 ..< length chunks])))))"

definition rebuildFromDisk :: "ext \<Rightarrow> string list \<Rightarrow> dir_entry list \<Rightarrow> server \<Rightarrow> (server \<times> nat) option" where
  "rebuildFromDisk x urls files st =
     (case rebuild_urls x urls st [] of
        None \<Rightarrow> None
      | Some (st1, items1) \<Rightarrow>
          (case rebuild_files x files st1 items1 of
             None \<Rightarrow> None
           | Some (st2, items2) \<Rightarrow> Some (saveIndex (st2\<lparr>items := items2\<rparr>), length items2)))"

text \<open>
  \<^verbatim>\<open>
  app.post('/api/admin/rebuild', requireAdmin, async (req, res) => {
    try { const n = await rebuildFromDisk(); res.json({ ok: true, items: n }); }
    catch (e) { res.status(500).json({ error: e.message }); }
  });
  \<close>
\<close>

definition rebuild :: "ext \<Rightarrow> string list \<Rightarrow> dir_entry list \<Rightarrow> server \<Rightarrow> (server \<times> response) option" where
  "rebuild x urls files st =
     (case rebuildFromDisk x urls files st of
        None \<Rightarrow> None
      | Some (st', n) \<Rightarrow> Some (st', json (RebuiltBody n)))"

text \<open>
  The shape of an identifier as section 3 of the specification words it,
  \<^verbatim>\<open><sourceKind>:<sourceIdentifier>::<chunkIndex>\<close>: the kind and the source are those of
  the record, and the chunk index is a string of decimal digits. \<open>index_ok\<close> says that
  every identifier of an index has this shape and that no two are equal.
\<close>

definition kind_prefix :: "src_type \<Rightarrow> string" where
  "kind_prefix ty = (case ty of File \<Rightarrow> ''file:'' | Url \<Rightarrow> ''url:'')"

definition is_digit :: "char \<Rightarrow> bool" where
  "is_digit c = (c \<in> set ''0123456789'')"

definition id_formed :: "IndexRecord \<Rightarrow> bool" where
  "id_formed r =
     (let p = kind_prefix (type_f r) @ source r @ ''::''
      in take (length p) (id_f r) = p \<and> list_all is_digit (drop (length p) (id_f r)))"

definition index_ok :: "IndexRecord list \<Rightarrow> bool" where
  "index_ok its = (list_all id_formed its \<and> distinct (map id_f its))"

text \<open>
  The records that one ingestion of a source appends: those of \<open>embedAndAppend\<close> and of the
  loops of \<open>rebuildFromDisk\<close>, for the prefix that the kind and the source form.
\<close>

definition batch :: "src_type \<Rightarrow> string \<Rightarrow> string list \<Rightarrow> num list list \<Rightarrow> IndexRecord list" where
  "batch ty s chunks embs =
     map (new_record \<lparr>idPrefix = kind_prefix ty @ s, meta_source = s, meta_type = ty\<rparr> chunks embs)
       [0 ..< length chunks]"

section \<open>Admin middleware\<close>

text \<open>
  \<^verbatim>\<open>
  function requireAdmin(req, res, next){
    if (!ADMIN_TOKEN) return res.status(500).json({ error: 'ADMIN_TOKEN not set on server' });
    const auth = req.headers['authorization'] || '';
    const token = auth.startsWith('Bearer ') ? auth.slice(7) : '';
    if (token !== ADMIN_TOKEN) return res.status(401).json({ error: 'unauthorized' });
    next();
  }
  \<close>
  The argument is the \<^verbatim>\<open>authorization\<close> header, \<open>None\<close> when the request has none.
  The result is the response the middleware sends, or \<open>None\<close> when it calls \<^verbatim>\<open>next()\<close>.
\<close>

definition startsWith :: "string \<Rightarrow> string \<Rightarrow> bool" where
  "startsWith s p = (take (length p) s = p)"

definition requireAdmin :: "config \<Rightarrow> string option \<Rightarrow> response option" where
  "requireAdmin cfg authorization =
     (if ADMIN_TOKEN cfg = [] then Some (status_json 500 (ErrorBody ''ADMIN_TOKEN not set on server''))
      else (let auth = (case authorization of None \<Rightarrow> [] | Some a \<Rightarrow> a);
                token = (if startsWith auth ''Bearer '' then slice_js auth 7 (int (length auth)) else [])
            in if token \<noteq> ADMIN_TOKEN cfg then Some (status_json 401 (ErrorBody ''unauthorized''))
               else None))"

text \<open>
  Every admin route is registered as \<^verbatim>\<open>app.METHOD(path, requireAdmin, ..., handler)\<close>: the
  handler runs only when the middleware calls \<^verbatim>\<open>next()\<close>.
\<close>

definition admin_route ::
  "config \<Rightarrow> string option \<Rightarrow> (server \<Rightarrow> (server \<times> response) option) \<Rightarrow> server \<Rightarrow> (server \<times> response) option" where
  "admin_route cfg authorization handler st =
     (case requireAdmin cfg authorization of
        Some r \<Rightarrow> Some (st, r)
      | None \<Rightarrow> handler st)"

text \<open>The header that carries the configured bearer token.\<close>

definition bearer :: "string \<Rightarrow> string option" where
  "bearer tok = Some (''Bearer '' @ tok)"

section \<open>Retriever and confidence gate\<close>

text \<open>
  \<^verbatim>\<open>Array.prototype.sort(comparefn)\<close>. ECMAScript fixes the result only when the
  comparator is a consistent comparison function for the elements: it never returns NaN,
  and the three relations "negative", "zero" and "positive" that it induces are an
  equivalence with a strict order on both sides. Then the result is the stable sort, in
  which \<open>x\<close> stands after \<open>y\<close> when \<^verbatim>\<open>comparefn(x, y)\<close> is positive; here it is computed by
  insertion. Otherwise the order is the implementation's, the parameter \<open>impl\<close>.
\<close>

definition cf_lt :: "('a \<Rightarrow> 'a \<Rightarrow> num) \<Rightarrow> 'a \<Rightarrow> 'a \<Rightarrow> bool" where
  "cf_lt c a b = flt (c a b) (Fin 0)"

definition cf_eq :: "('a \<Rightarrow> 'a \<Rightarrow> num) \<Rightarrow> 'a \<Rightarrow> 'a \<Rightarrow> bool" where
  "cf_eq c a b = (c a b = Fin 0)"

definition cf_gt :: "('a \<Rightarrow> 'a \<Rightarrow> num) \<Rightarrow> 'a \<Rightarrow> 'a \<Rightarrow> bool" where
  "cf_gt c a b = flt (Fin 0) (c a b)"

definition consistent :: "('a \<Rightarrow> 'a \<Rightarrow> num) \<Rightarrow> 'a list \<Rightarrow> bool" where
  "consistent c xs =
     (\<forall>a \<in> set xs. \<forall>b \<in> set xs. \<forall>d \<in> set xs.
        c a b \<noteq> NaN \<and> cf_eq c a a \<and>
        (cf_eq c a b \<longrightarrow> cf_eq c b a) \<and>
        (cf_eq c a b \<and> cf_eq c b d \<longrightarrow> cf_eq c a d) \<and>
        (cf_lt c a b \<and> cf_lt c b d \<longrightarrow> cf_lt c a d) \<and>
        (cf_gt c a b \<and> cf_gt c b d \<longrightarrow> cf_gt c a d))"

fun ins_cmp :: "('a \<Rightarrow> 'a \<Rightarrow> num) \<Rightarrow> 'a \<Rightarrow> 'a list \<Rightarrow> 'a list" where
  "ins_cmp c x [] = [x]"
| "ins_cmp c x (y # ys) = (if cf_gt c x y then y # ins_cmp c x ys else x # y # ys)"

definition sort_stable :: "('a \<Rightarrow> 'a \<Rightarrow> num) \<Rightarrow> 'a list \<Rightarrow> 'a list" where
  "sort_stable c xs = foldr (ins_cmp c) xs []"

definition js_sort :: "('a \<Rightarrow> 'a \<Rightarrow> num) \<Rightarrow> ('a list \<Rightarrow> 'a list) \<Rightarrow> 'a list \<Rightarrow> 'a list" where
  "js_sort c impl xs = (if consistent c xs then sort_stable c xs else impl xs)"

text \<open>
  \<^verbatim>\<open>
  function topKByCosine(qEmb, k = 5) {
    const scored = INDEX.items.map(it => ({ ...it, score: cosine(qEmb, it.embedding) }));
    scored.sort((a, b) => b.score - a.score);
    return scored.slice(0, Math.min(k, scored.length));
  }
  \<close>
  The engine and the index are the first arguments; \<open>k\<close> is a count.
\<close>

definition scored_of :: "num list \<Rightarrow> IndexRecord \<Rightarrow> ScoredRecord" where
  "scored_of qEmb it =
     \<lparr>id_f = id_f it, source = source it, type_f = type_f it, text_f = text_f it,
      embedding = embedding it, score = cosine qEmb (embedding it)\<rparr>"

definition comparator :: "ScoredRecord \<Rightarrow> ScoredRecord \<Rightarrow> num" where
  "comparator a b = fsub (score b) (score a)"

definition topKByCosine :: "ext \<Rightarrow> IndexRecord list \<Rightarrow> num list \<Rightarrow> nat \<Rightarrow> ScoredRecord list" where
  "topKByCosine x its qEmb k =
     (let scored = map (scored_of qEmb) its;
          sorted = js_sort comparator (sort_impl x) scored
      in slice_js sorted 0 (min (int k) (int (length sorted))))"

text \<open>
  Two conditions on a query: every score is a finite number, which makes the comparator
  consistent, a finite score being a value of the grid of binary64; and the engine's own
  order is a rearrangement of the array, which ECMAScript demands of every implementation.
\<close>

definition finite_scores :: "num list \<Rightarrow> IndexRecord list \<Rightarrow> bool" where
  "finite_scores qEmb its = list_all (\<lambda>it. is_fin (cosine qEmb (embedding it))) its"

definition fin_score :: "ScoredRecord \<Rightarrow> bool" where
  "fin_score t = (is_fin (score t) \<and> on_grid (fin_val (score t)))"

definition sort_permutes :: "ext \<Rightarrow> bool" where
  "sort_permutes x = (\<forall>xs. mset (sort_impl x xs) = mset xs)"

text \<open>
  \<^verbatim>\<open>
  function refusalMessage() {
    return { answer: "...", sources: [] };
  }
  \<close>
  The answer is a fixed Persian sentence, given here by its UTF-8 bytes.
\<close>

definition refusal_answer :: string where
  "refusal_answer =
       [CHR 0xD8, CHR 0xA8, CHR 0xD8, CHR 0xB1, CHR 0xD8, CHR 0xA7, CHR 0xDB, CHR 0x8C,
        CHR 0x20, CHR 0xD8, CHR 0xA7, CHR 0xDB, CHR 0x8C, CHR 0xD9, CHR 0x86, CHR 0x20,
        CHR 0xD9, CHR 0x85, CHR 0xD9, CHR 0x88, CHR 0xD8, CHR 0xB6, CHR 0xD9, CHR 0x88,
        CHR 0xD8, CHR 0xB9, CHR 0x20, CHR 0xD8, CHR 0xA2, CHR 0xD9, CHR 0x85, CHR 0xD9,
        CHR 0x88, CHR 0xD8, CHR 0xB2, CHR 0xD8, CHR 0xB4, CHR 0x20, CHR 0xD9, CHR 0x86,
        CHR 0xD8, CHR 0xAF, CHR 0xDB, CHR 0x8C, CHR 0xD8, CHR 0xAF, CHR 0xD9, CHR 0x87,
        CHR 0xE2, CHR 0x80, CHR 0x8C, CHR 0xD8, CHR 0xA7, CHR 0xD9, CHR 0x85, CHR 0x20,
        CHR 0xD9, CHR 0x88, CHR 0x20, CHR 0xD9, CHR 0x86, CHR 0xD9, CHR 0x85, CHR 0xDB,
        CHR 0x8C, CHR 0xE2, CHR 0x80, CHR 0x8C, CHR 0xD8, CHR 0xAA, CHR 0xD9, CHR 0x88,
        CHR 0xD8, CHR 0xA7, CHR 0xD9, CHR 0x86, CHR 0xD9, CHR 0x85, CHR 0x20, CHR 0xD9,
        CHR 0xBE, CHR 0xD8, CHR 0xA7, CHR 0xD8, CHR 0xB3, CHR 0xD8, CHR 0xAE, CHR 0x20,
        CHR 0xD8, CHR 0xA8, CHR 0xD8, CHR 0xAF, CHR 0xD9, CHR 0x87, CHR 0xD9, CHR 0x85,
        CHR 0x2E]"

definition refusalMessage :: body where
  "refusalMessage = ChatBody refusal_answer []"

text \<open>
  \<^verbatim>\<open>
  const topSim = top[0]?.score ?? 0;
  const avgTop3 = top.slice(0,3).reduce((s, x) => s + x.score, 0)
                  / Math.max(1, Math.min(3, top.length));
  \<close>
\<close>

definition topSim_of :: "ScoredRecord list \<Rightarrow> num" where
  "topSim_of top_k = (case top_k of [] \<Rightarrow> Fin 0 | t # _ \<Rightarrow> score t)"

definition avgTop3_of :: "ScoredRecord list \<Rightarrow> num" where
  "avgTop3_of top_k =
     fdiv (fold (\<lambda>x s. fadd s (score x)) (slice_js top_k 0 3) (Fin 0))
          (Fin (real (max 1 (min 3 (length top_k)))))"

text \<open>
  The mean of a list of numbers as binary64 arithmetic computes it: the sum from the left,
  starting at zero, divided by the count.
\<close>

definition fmean :: "num list \<Rightarrow> num" where
  "fmean vs = fdiv (fold (\<lambda>v s. fadd s v) vs (Fin 0)) (Fin (real (length vs)))"

text \<open>
  \<^verbatim>\<open>Number(x.toFixed(3))\<close>: the binary64 value of the decimal with three digits nearest to
  \<open>x\<close>, a tie going away from zero; from \<open>10^21\<close> on, \<^verbatim>\<open>toFixed\<close> prints the number itself.
\<close>

definition decimal3 :: "real \<Rightarrow> real" where
  "decimal3 x =
     (if x < 0 then - (real_of_int (round (- x * 1000)) / 1000)
      else real_of_int (round (x * 1000)) / 1000)"

fun toFixed3 :: "num \<Rightarrow> num" where
  "toFixed3 (Fin x) = (if 10 ^ 21 \<le> \<bar>x\<bar> then Fin x else rnd (decimal3 x))"
| "toFixed3 n = n"

definition sources_of :: "ScoredRecord list \<Rightarrow> source_ref list" where
  "sources_of top_k =
     map (\<lambda>(i, t). \<lparr>ref_id = i + 1, ref_source = source t, ref_score = toFixed3 (score t)\<rparr>)
       (enumerate 0 top_k)"

definition error_message :: "string \<Rightarrow> string" where
  "error_message e = (if e = [] then ''server error'' else e)"

text \<open>
  \<^verbatim>\<open>
  app.post('/api/chat', async (req, res) => {
    try {
      const { message } = req.body || {};
      if (!message || typeof message !== 'string')
        return res.status(400).json({ error: 'message is required' });
      if (!INDEX.items || INDEX.items.length === 0)
        return res.status(400).json({ error: 'No index found. Use admin panel to add resources.' });
      const qEmb = await embedQuery(message);
      const top = topKByCosine(qEmb, 5);
      const topSim = ...; const avgTop3 = ...;
      if (topSim < MIN_TOP_SIM || avgTop3 < MIN_AVG_TOP3) return res.json(refusalMessage());
      ...
      const completion = await openai.chat.completions.create({ ... });
      const answer = completion.choices[0].message.content || "";
      const sources = top.map((t, i) => ({ id: i+1, source: t.source, score: Number(t.score.toFixed(3)) }));
      res.json({ answer, sources });
    } catch (e) { res.status(500).json({ error: e.message || 'server error' }); }
  });
  \<close>
  The variable \<open>top_k\<close> is the source's \<^verbatim>\<open>top\<close>. The message is \<open>None\<close> when the body has
  no \<^verbatim>\<open>message\<close> or one that is not a string.
\<close>

definition chat :: "config \<Rightarrow> ext \<Rightarrow> string option \<Rightarrow> server \<Rightarrow> server \<times> response" where
  "chat cfg x message st =
     (case message of
        None \<Rightarrow> (st, status_json 400 (ErrorBody ''message is required''))
      | Some m \<Rightarrow>
          if m = [] then (st, status_json 400 (ErrorBody ''message is required''))
          else if items st = [] then
            (st, status_json 400 (ErrorBody ''No index found. Use admin panel to add resources.''))
          else (case embedQuery_api x m of
                  Inl e \<Rightarrow> (log_call (EmbedQueryCall m) st, status_json 500 (ErrorBody (error_message e)))
                | Inr qEmb \<Rightarrow>
                    (let st1 = log_call (EmbedQueryCall m) st;
                         top_k = topKByCosine x (items st1) qEmb 5;
                         topSim = topSim_of top_k;
                         avgTop3 = avgTop3_of top_k
                     in if flt topSim (MIN_TOP_SIM cfg) \<or> flt avgTop3 (MIN_AVG_TOP3 cfg)
                        then (st1, json refusalMessage)
                        else (case complete_api x m top_k of
                                Inl e \<Rightarrow> (log_call (CompleteCall m top_k) st1,
                                          status_json 500 (ErrorBody (error_message e)))
                              | Inr answer \<Rightarrow> (log_call (CompleteCall m top_k) st1,
                                               json (ChatBody answer (sources_of top_k)))))))"
section \<open>Slices that start at zero or end at the length\<close>

lemma slice_js_from_0:
  "0 \<le> n \<Longrightarrow> slice_js xs 0 n = take (nat n) xs"
  by (auto simp: slice_js_def Let_def min_def)

lemma slice_js_to_end:
  "0 \<le> k \<Longrightarrow> slice_js xs k (int (length xs)) = drop (nat k) xs"
  by (auto simp: slice_js_def Let_def min_def)

section \<open>The chunker: exit, count and coverage\<close>

subsection \<open>The loop in closed form\<close>

lemma ceil_step:
  fixes n d :: int
  assumes "0 < d" "0 < n"
  shows "nat ((n + d - 1) div d) = Suc (nat ((n - d + d - 1) div d))"
proof -
  have "(n + d - 1) div d = (n - 1) div d + 1"
    using assms by (metis add.commute add_diff_eq div_add_self1 less_numeral_extra(3))
  moreover have "0 \<le> (n - 1) div d"
    using assms by (simp add: pos_imp_zdiv_nonneg_iff)
  ultimately show ?thesis by simp
qed

lemma chunk_loop_closed:
  assumes d: "overlap < size_c"
  shows "chunk_loop text size_c overlap chunks i =
         Some (chunks @ map (\<lambda>j. window text size_c (i + int j * (size_c - overlap)))
                 [0 ..< nat ((int (length text) - i + (size_c - overlap) - 1) div (size_c - overlap))])"
proof (induction "nat (int (length text) - i)" arbitrary: i chunks rule: less_induct)
  case less
  let ?d = "size_c - overlap"
  let ?L = "int (length text)"
  have dpos: "0 < ?d" using d by simp
  show ?case
  proof (cases "i < ?L")
    case False
    then have "(?L - i + ?d - 1) div ?d \<le> (?d - 1) div ?d"
      using dpos by (intro zdiv_mono1) simp_all
    moreover have "(?d - 1) div ?d = 0"
      using dpos by (simp add: div_pos_pos_trivial)
    ultimately have "(?L - i + ?d - 1) div ?d \<le> 0" by simp
    with False show ?thesis
      by (subst chunk_loop.simps) simp
  next
    case True
    have m: "nat (?L - (i + ?d)) < nat (?L - i)" using True dpos by simp
    have n: "nat ((?L - i + ?d - 1) div ?d) = Suc (nat ((?L - (i + ?d) + ?d - 1) div ?d))"
      using ceil_step[of ?d "?L - i"] dpos True by (simp add: algebra_simps)
    have shift: "map (\<lambda>j. window text size_c (i + int j * ?d)) [0 ..< Suc k] =
          window text size_c i # map (\<lambda>j. window text size_c (i + ?d + int j * ?d)) [0 ..< k]" for k
      by (simp add: upt_rec[of 0] map_Suc_upt[symmetric] algebra_simps del: upt_Suc)
    have "chunk_loop text size_c overlap chunks i =
          chunk_loop text size_c overlap (chunks @ [window text size_c i]) (i + ?d)"
      using True by (subst chunk_loop.simps) (simp add: Let_def window_def)
    also have "\<dots> = Some ((chunks @ [window text size_c i]) @
          map (\<lambda>j. window text size_c (i + ?d + int j * ?d))
            [0 ..< nat ((?L - (i + ?d) + ?d - 1) div ?d)])"
      by (rule less.hyps[OF m])
    finally show ?thesis
      by (simp only: n shift append_assoc append_Cons append_Nil)
  qed
qed

text \<open>The number of windows is the ceiling of \<open>L / d\<close>.\<close>

lemma neg_div_neg:
  fixes a d :: int
  assumes "0 < d"
  shows "- (- a div d) = (a + d - 1) div d"
proof -
  define q where "q = a div d"
  define r where "r = a mod d"
  have a: "a = q * d + r" by (simp add: q_def r_def)
  have r: "0 \<le> r" "r < d" using assms by (simp_all add: r_def)
  have lhs: "- (- a div d) = (if r = 0 then q else q + 1)"
    using assms by (simp add: zdiv_zminus1_eq_if q_def r_def)
  have "(a + d - 1) div d = (r + d - 1 + q * d) div d" by (simp add: a algebra_simps)
  also have "\<dots> = (r + d - 1) div d + q" using assms by simp
  also have "(r + d - 1) div d = (if r = 0 then 0 else 1)"
  proof (cases "r = 0")
    case True
    then show ?thesis using assms by (simp add: div_pos_pos_trivial)
  next
    case False
    then have "(r + d - 1) div d = ((r - 1) + 1 * d) div d" by (simp add: algebra_simps)
    also have "\<dots> = (r - 1) div d + 1" using assms by (subst div_mult_self1) simp_all
    also have "(r - 1) div d = 0" using r False by (simp add: div_pos_pos_trivial)
    finally show ?thesis using False by simp
  qed
  finally show ?thesis using lhs by simp
qed

lemma ceil_div_nat:
  fixes d :: int
  assumes "0 < d"
  shows "nat ((int L + d - 1) div d) = nat \<lceil>real L / real_of_int d\<rceil>"
proof -
  have "\<lceil>real L / real_of_int d\<rceil> = \<lceil>real_of_int (int L) / real_of_int d\<rceil>" by simp
  also have "\<dots> = - (- int L div d)" by (rule ceiling_divide_eq_div)
  also have "\<dots> = (int L + d - 1) div d" by (rule neg_div_neg[OF assms])
  finally show ?thesis by simp
qed


subsection \<open>Windows as substrings\<close>

lemma chunkText_closed:
  assumes "overlap < size_c"
  shows "chunkText text size_c overlap =
         Some (map (\<lambda>j. window text size_c (int j * (size_c - overlap)))
                 [0 ..< n_windows (length text) (size_c - overlap)])"
  using chunk_loop_closed[OF assms, of "text" "[]" 0] by (simp add: chunkText_def n_windows_def)

lemma window_take_drop:
  assumes "0 \<le> size_c"
  shows "window text size_c (int p) = take (nat size_c) (drop p text)"
proof (cases "p \<le> length text")
  case True
  then show ?thesis using assms
    by (auto simp: window_def slice_js_def Let_def min_def nat_diff_distrib' nat_add_distrib)
next
  case False
  then show ?thesis using assms
    by (auto simp: window_def slice_js_def Let_def min_def)
qed

lemma n_windows_bound:
  assumes "0 < d" "j < n_windows L d"
  shows "int j * d < int L"
proof -
  define q where "q = (int L + d - 1) div d"
  have "int j + 1 \<le> q" using assms by (simp add: n_windows_def q_def)
  then have "d * (int j + 1) \<le> d * q" using assms(1) by (simp add: mult_left_mono)
  moreover have "d * q + (int L + d - 1) mod d = int L + d - 1"
    unfolding q_def by (rule mult_div_mod_eq)
  moreover have "0 \<le> (int L + d - 1) mod d" using assms(1) by simp
  ultimately show ?thesis by (simp add: algebra_simps)
qed

lemma n_windows_reach:
  assumes "0 < d"
  shows "int L \<le> int (n_windows L d) * d"
proof -
  define x where "x = int L + d - 1"
  define q where "q = x div d"
  define r where "r = x mod d"
  have "0 \<le> q" using assms by (simp add: q_def x_def pos_imp_zdiv_nonneg_iff)
  then have n: "int (n_windows L d) = q" by (simp add: n_windows_def x_def q_def)
  have "d * q + r = x" unfolding q_def r_def by (rule mult_div_mod_eq)
  moreover have "r < d" using assms by (simp add: r_def)
  ultimately have "int L \<le> q * d" by (simp add: x_def algebra_simps)
  then show ?thesis by (simp only: n)
qed



lemma concat_take_windows:
  "concat (map (\<lambda>j. take d (drop (j * d) xs)) [0 ..< n]) = take (n * d) xs"
proof (induction n)
  case 0
  then show ?case by simp
next
  case (Suc n)
  have "take (n * d) xs @ take d (drop (n * d) xs) = take (n * d + d) xs"
    by (simp add: take_add)
  with Suc show ?case by (simp add: add.commute)
qed

lemma chunkText_nth_form:
  assumes "0 \<le> overlap" "overlap < size_c"
  shows "chunkText text size_c overlap =
         Some (map (\<lambda>j. take (nat size_c) (drop (j * nat (size_c - overlap)) text))
                 [0 ..< n_windows (length text) (size_c - overlap)])"
proof -
  have "window text size_c (int j * (size_c - overlap)) =
        take (nat size_c) (drop (j * nat (size_c - overlap)) text)" for j
  proof -
    have "int j * (size_c - overlap) = int (j * nat (size_c - overlap))"
      using assms by simp
    then show ?thesis using window_take_drop[of size_c "text" "j * nat (size_c - overlap)"] assms
      by simp
  qed
  then show ?thesis using chunkText_closed[OF assms(2), of "text"] by simp
qed

subsection \<open>The loop over bounded arrays\<close>

lemma chunk_loop_cap_stuck:
  assumes "size_c \<le> overlap" "i < int (length text)"
  shows "chunk_loop_cap cap text size_c overlap chunks i = Inl RangeError"
  using assms(2)
proof (induction "cap - length chunks" arbitrary: chunks i rule: less_induct)
  case less
  show ?case
  proof (cases "cap \<le> length chunks")
    case True
    then show ?thesis using less.prems by (subst chunk_loop_cap.simps) (simp add: Let_def)
  next
    case False
    let ?c = "chunks @ [slice_js text i (min (int (length text)) (i + size_c))]"
    have m: "cap - length ?c < cap - length chunks" using False by simp
    have i': "i + (size_c - overlap) < int (length text)" using assms(1) less.prems by simp
    have "chunk_loop_cap cap text size_c overlap chunks i =
          chunk_loop_cap cap text size_c overlap ?c (i + (size_c - overlap))"
      using False less.prems by (subst chunk_loop_cap.simps) (simp add: Let_def)
    also have "\<dots> = Inl RangeError" by (rule less.hyps[OF m i'])
    finally show ?thesis .
  qed
qed

lemma chunk_loop_cap_closed:
  assumes d: "overlap < size_c" and fits: "length chunks \<le> cap"
  shows "chunk_loop_cap cap text size_c overlap chunks i =
         (let ws = map (\<lambda>j. window text size_c (i + int j * (size_c - overlap)))
                     [0 ..< nat ((int (length text) - i + (size_c - overlap) - 1) div (size_c - overlap))]
          in if length chunks + length ws \<le> cap then Inr (chunks @ ws) else Inl RangeError)"
  using fits
proof (induction "nat (int (length text) - i)" arbitrary: i chunks rule: less_induct)
  case less
  let ?d = "size_c - overlap"
  let ?L = "int (length text)"
  have dpos: "0 < ?d" using d by simp
  show ?case
  proof (cases "i < ?L")
    case False
    then have "(?L - i + ?d - 1) div ?d \<le> (?d - 1) div ?d"
      using dpos by (intro zdiv_mono1) simp_all
    moreover have "(?d - 1) div ?d = 0"
      using dpos by (simp add: div_pos_pos_trivial)
    ultimately have "(?L - i + ?d - 1) div ?d \<le> 0" by simp
    with False less.prems show ?thesis
      by (subst chunk_loop_cap.simps) simp
  next
    case True
    have m: "nat (?L - (i + ?d)) < nat (?L - i)" using True dpos by simp
    have n: "nat ((?L - i + ?d - 1) div ?d) = Suc (nat ((?L - (i + ?d) + ?d - 1) div ?d))"
      using ceil_step[of ?d "?L - i"] dpos True by (simp add: algebra_simps)
    have shift: "map (\<lambda>j. window text size_c (i + int j * ?d)) [0 ..< Suc k] =
          window text size_c i # map (\<lambda>j. window text size_c (i + ?d + int j * ?d)) [0 ..< k]" for k
      by (simp add: upt_rec[of 0] map_Suc_upt[symmetric] algebra_simps del: upt_Suc)
    let ?n' = "nat ((?L - (i + ?d) + ?d - 1) div ?d)"
    let ?ws' = "map (\<lambda>j. window text size_c (i + ?d + int j * ?d)) [0 ..< ?n']"
    show ?thesis
    proof (cases "cap \<le> length chunks")
      case full: True
      have "chunk_loop_cap cap text size_c overlap chunks i = Inl RangeError"
        using True full by (subst chunk_loop_cap.simps) (simp add: Let_def)
      moreover have "\<not> length chunks + Suc ?n' \<le> cap" using full by simp
      ultimately show ?thesis by (simp only: Let_def n length_map length_upt diff_zero if_False)
    next
      case room: False
      have fits': "length (chunks @ [window text size_c i]) \<le> cap" using room by simp
      have "chunk_loop_cap cap text size_c overlap chunks i =
            chunk_loop_cap cap text size_c overlap (chunks @ [window text size_c i]) (i + ?d)"
        using True room by (subst chunk_loop_cap.simps) (simp add: Let_def window_def)
      also have "\<dots> = (if length (chunks @ [window text size_c i]) + length ?ws' \<le> cap
                        then Inr ((chunks @ [window text size_c i]) @ ?ws') else Inl RangeError)"
        using less.hyps[OF m fits'] by (simp only: Let_def)
      finally show ?thesis
        by (simp only: Let_def n shift append_assoc append_Cons append_Nil length_append
              length_Cons list.size length_map length_upt diff_zero) (simp add: add.commute)
    qed
  qed
qed

subsection \<open>Claims about the chunker\<close>

text \<open>
  C2, as amended. With \<open>overlap < size\<close> the chunker returns, and the number of chunks is
  \<open>ceil(L / (size - overlap))\<close> for a text of \<open>L\<close> characters: one chunk for every window
  start \<open>0, d, 2d, ...\<close> below \<open>L\<close>, where \<open>d = size - overlap\<close>. This is zero for the
  empty text.
\<close>

theorem chunkText_count:
  assumes "overlap < size_c"
  shows "map_option length (chunkText text size_c overlap) =
         Some (nat \<lceil>real (length text) / real_of_int (size_c - overlap)\<rceil>)"
proof -
  have "0 < size_c - overlap" using assms by simp
  from ceil_div_nat[OF this, of "length text"] chunkText_closed[OF assms, of "text"]
  show ?thesis by (simp add: n_windows_def)
qed

text \<open>The count at a text of four characters, size 4 and overlap 1.\<close>

theorem chunkText_count_witness:
  "(1::int) < 4 \<and> map_option length (chunkText ''abcd'' 4 1) = Some 2"
  using chunkText_count[of 1 4 "''abcd''"] by simp

text \<open>
  C2 as stated fails there: the loop cuts two chunks, the second starting at offset 3,
  where the formula \<open>ceil((L - O) / (S - O))\<close> gives one.
\<close>

theorem chunkText_count_counterexample:
  "chunkText ''abcd'' 4 1 = Some [''abcd'', ''d''] \<and> spec_chunk_count (length ''abcd'') 4 1 = 1"
  by (simp add: chunkText_def chunk_loop.simps slice_js_def spec_chunk_count_def)

text \<open>
  C3, as amended. The chunker has no guard on its configuration. With \<open>overlap < size\<close> it
  terminates for every text and returns its chunks, as long as their number is within the
  bound of an array. With \<open>overlap \<ge> size\<close> and a text that is not empty the counter never
  advances, the loop pushes chunks until the array is full, and the call ends with the
  \<^verbatim>\<open>RangeError\<close> of \<^verbatim>\<open>push\<close>; on the empty text the same configuration returns no chunk
  and raises nothing.
\<close>

theorem chunkText_unguarded:
  "(overlap < size_c \<longrightarrow>
      (\<exists>cs. chunkText text size_c overlap = Some cs \<and>
            chunkText_cap cap text size_c overlap =
              (if length cs \<le> cap then Inr cs else Inl RangeError))) \<and>
   (size_c \<le> overlap \<and> text \<noteq> [] \<longrightarrow> chunkText_cap cap text size_c overlap = Inl RangeError) \<and>
   (text = [] \<longrightarrow> chunkText_cap cap text size_c overlap = Inr [])"
proof (intro conjI impI)
  assume d: "overlap < size_c"
  let ?cs = "map (\<lambda>j. window text size_c (int j * (size_c - overlap)))
               [0 ..< n_windows (length text) (size_c - overlap)]"
  have "chunkText text size_c overlap = Some ?cs" by (rule chunkText_closed[OF d])
  moreover have "chunkText_cap cap text size_c overlap =
                   (if length ?cs \<le> cap then Inr ?cs else Inl RangeError)"
    using chunk_loop_cap_closed[OF d, of "[]" cap "text" 0]
    by (simp add: chunkText_cap_def n_windows_def)
  ultimately show "\<exists>cs. chunkText text size_c overlap = Some cs \<and>
            chunkText_cap cap text size_c overlap =
              (if length cs \<le> cap then Inr cs else Inl RangeError)"
    by blast
next
  assume "size_c \<le> overlap \<and> text \<noteq> []"
  then show "chunkText_cap cap text size_c overlap = Inl RangeError"
    unfolding chunkText_cap_def by (intro chunk_loop_cap_stuck) simp_all
next
  assume "text = []"
  then show "chunkText_cap cap text size_c overlap = Inr []"
    unfolding chunkText_cap_def by (subst chunk_loop_cap.simps) simp
qed

text \<open>The three cases at concrete texts, with an array of at most two and of three elements.\<close>

theorem chunkText_unguarded_witness:
  "(1::int) < 2 \<and> chunkText ''abc'' 2 1 = Some [''ab'', ''bc'', ''c''] \<and>
   chunkText_cap 3 ''abc'' 2 1 = Inr [''ab'', ''bc'', ''c''] \<and>
   chunkText_cap 2 ''abc'' 2 1 = Inl RangeError \<and>
   (2::int) \<le> 3 \<and> ''abc'' \<noteq> [] \<and> chunkText_cap 3 ''abc'' 2 3 = Inl RangeError \<and>
   chunkText_cap 3 ([] :: string) 2 3 = Inr []"
proof -
  have c: "chunkText ''abc'' 2 1 = Some [''ab'', ''bc'', ''c'']"
    by (simp add: chunkText_def chunk_loop.simps slice_js_def)
  show ?thesis
    using chunkText_unguarded[of 1 2 "''abc''" 3] chunkText_unguarded[of 1 2 "''abc''" 2]
      chunkText_unguarded[of 3 2 "''abc''" 3] chunkText_unguarded[of 3 2 "[] :: string" 3]
    by (simp add: c)
qed

text \<open>
  C3 as stated fails at \<open>overlap = size = 200\<close>: nothing checks the configuration. On a
  text of one character the call ends with the \<^verbatim>\<open>RangeError\<close> that \<^verbatim>\<open>push\<close> throws when
  the array is full, and on the empty text it returns the empty list.
\<close>

theorem chunkText_unguarded_counterexample:
  "chunkText_cap ARRAY_MAX_LENGTH ''a'' 200 200 = Inl RangeError \<and>
   chunkText_cap ARRAY_MAX_LENGTH ([] :: string) 200 200 = Inr []"
proof
  show "chunkText_cap ARRAY_MAX_LENGTH ''a'' 200 200 = Inl RangeError"
    unfolding chunkText_cap_def by (rule chunk_loop_cap_stuck) simp_all
  show "chunkText_cap ARRAY_MAX_LENGTH ([] :: string) 200 200 = Inr []"
    unfolding chunkText_cap_def by (subst chunk_loop_cap.simps) simp
qed

text \<open>
  C8, as amended. With \<open>0 \<le> overlap < size\<close> and \<open>d = size - overlap\<close>: chunk \<open>j\<close> is the
  window of at most \<open>size\<close> characters that starts at offset \<open>j * d\<close>, inside the text;
  the first \<open>d\<close> characters of the chunks, concatenated, are the text; every character
  of the text lies in a chunk; the characters of chunk \<open>j\<close> from offset \<open>d\<close> on are the
  first characters of chunk \<open>j + 1\<close>, and there are \<open>min(overlap, L - (j + 1) * d)\<close> of
  them: exactly \<open>overlap\<close> when chunk \<open>j\<close> has the full \<open>size\<close> characters, and for every
  pair but the last when \<open>2 * overlap \<le> size\<close>, as with the defaults 800 and 200.
\<close>

theorem chunkText_cover:
  assumes "0 \<le> overlap" "overlap < size_c"
  shows "\<exists>cs. chunkText text size_c overlap = Some cs \<and>
     (\<forall>j < length cs. cs ! j = take (nat size_c) (drop (j * nat (size_c - overlap)) text) \<and>
                       j * nat (size_c - overlap) < length text) \<and>
     concat (map (take (nat (size_c - overlap))) cs) = text \<and>
     (\<forall>p < length text. \<exists>j < length cs.
          j * nat (size_c - overlap) \<le> p \<and>
          p - j * nat (size_c - overlap) < length (cs ! j) \<and>
          cs ! j ! (p - j * nat (size_c - overlap)) = text ! p) \<and>
     (\<forall>j. Suc j < length cs \<longrightarrow>
          drop (nat (size_c - overlap)) (cs ! j) = take (nat overlap) (cs ! Suc j) \<and>
          shared_with_next cs (nat (size_c - overlap)) j =
            min (nat overlap) (length text - Suc j * nat (size_c - overlap)) \<and>
          (length (cs ! j) = nat size_c \<longrightarrow>
             shared_with_next cs (nat (size_c - overlap)) j = nat overlap)) \<and>
     (2 * overlap \<le> size_c \<longrightarrow>
        (\<forall>j. Suc (Suc j) < length cs \<longrightarrow>
             shared_with_next cs (nat (size_c - overlap)) j = nat overlap))"
proof -
  define d where "d = nat (size_c - overlap)"
  define S where "S = nat size_c"
  define ov where "ov = nat overlap"
  define L where "L = length text"
  define n where "n = n_windows L (size_c - overlap)"
  define cs where "cs = map (\<lambda>j. take S (drop (j * d) text)) [0 ..< n]"
  have dpos: "0 < d" and S: "S = d + ov" and dS: "d \<le> S"
    using assms by (simp_all add: d_def S_def ov_def)
  have d_int: "int d = size_c - overlap" using assms by (simp add: d_def)
  have run: "chunkText text size_c overlap = Some cs"
    using chunkText_nth_form[OF assms, of "text"] by (simp add: cs_def S_def d_def n_def L_def)
  have len: "length cs = n" by (simp add: cs_def)
  have nth: "cs ! j = take S (drop (j * d) text)" if "j < n" for j
    using that by (simp add: cs_def)
  have inside: "j * d < L" if "j < n" for j
  proof -
    have "int j * (size_c - overlap) < int L"
      using n_windows_bound[of "size_c - overlap" j L] that assms by (simp add: n_def)
    then have "int (j * d) < int L" by (simp add: d_int)
    then show ?thesis by (simp only: of_nat_less_iff)
  qed
  have reach: "L \<le> n * d"
  proof -
    have "int L \<le> int n * (size_c - overlap)"
      using n_windows_reach[of "size_c - overlap" L] assms by (simp add: n_def)
    then have "int L \<le> int (n * d)" by (simp add: d_int)
    then show ?thesis by (simp only: of_nat_le_iff)
  qed
  have c1: "\<forall>j < length cs. cs ! j = take S (drop (j * d) text) \<and> j * d < L"
    using nth inside len by simp
  have "concat (map (take d) cs) = concat (map (\<lambda>j. take d (drop (j * d) text)) [0 ..< n])"
    using dS by (simp add: cs_def comp_def min_absorb1)
  also have "\<dots> = take (n * d) text" by (rule concat_take_windows)
  also have "\<dots> = text" using reach by (simp add: L_def)
  finally have c2: "concat (map (take d) cs) = text" .
  have c3: "\<forall>p < L. \<exists>j < length cs. j * d \<le> p \<and> p - j * d < length (cs ! j) \<and>
              cs ! j ! (p - j * d) = text ! p"
  proof (intro allI impI)
    fix p assume p: "p < L"
    define j where "j = p div d"
    have lo: "j * d \<le> p" by (simp add: j_def)
    have hi: "p - j * d < d"
      using dpos by (simp add: j_def minus_div_mult_eq_mod)
    have "j * d < n * d" using lo p reach by linarith
    then have jn: "j < n" by (simp only: mult_less_cancel2)
    have l: "length (cs ! j) = min S (L - j * d)" using nth[OF jn] by (simp add: L_def)
    have in_chunk: "p - j * d < length (cs ! j)" using hi dS p lo by (simp add: l)
    have "cs ! j ! (p - j * d) = text ! p"
      using nth[OF jn] in_chunk lo p hi dS by (simp add: L_def)
    with lo in_chunk jn len show "\<exists>j < length cs. j * d \<le> p \<and> p - j * d < length (cs ! j) \<and>
              cs ! j ! (p - j * d) = text ! p" by blast
  qed
  have shared: "drop d (cs ! j) = take ov (cs ! Suc j) \<and>
                shared_with_next cs d j = min ov (L - Suc j * d) \<and>
                (length (cs ! j) = S \<longrightarrow> shared_with_next cs d j = ov)" if "Suc j < n" for j
  proof -
    have jn: "j < n" using that by simp
    have a: "drop d (cs ! j) = take ov (drop (Suc j * d) text)"
      using nth[OF jn] by (simp add: drop_take S add.commute)
    have b: "take ov (cs ! Suc j) = take ov (drop (Suc j * d) text)"
      using nth[OF that] by (simp add: S min_absorb1)
    have c: "shared_with_next cs d j = min ov (L - Suc j * d)"
      using a by (simp add: shared_with_next_def L_def min.commute)
    have "shared_with_next cs d j = ov" if full: "length (cs ! j) = S"
    proof -
      have "min S (L - j * d) = S" using full nth[OF jn] by (simp add: L_def min.commute)
      then have "j * d + S \<le> L" using inside[OF jn] by (simp add: min_def split: if_splits)
      then show ?thesis using c by (simp add: S)
    qed
    with a b c show ?thesis by simp
  qed
  have c5: "shared_with_next cs d j = ov" if "2 * overlap \<le> size_c" "Suc (Suc j) < n" for j
  proof -
    have "ov \<le> d" using that(1) assms by (simp add: ov_def d_def)
    moreover have "Suc (Suc j) * d < L" using inside[OF that(2)] .
    ultimately have "Suc j * d + ov \<le> L" by simp
    moreover have "Suc j < n" using that(2) by simp
    ultimately show ?thesis using shared[of j] by simp
  qed
  show ?thesis
    apply (rule exI[of _ cs])
    using run c1 c2 c3 shared c5
    unfolding len d_def[symmetric] S_def[symmetric] ov_def[symmetric] L_def[symmetric]
    by blast
qed

text \<open>The reconstruction at a text of seven characters, size 4 and overlap 1.\<close>

theorem chunkText_cover_witness:
  "(0::int) \<le> 1 \<and> (1::int) < 4 \<and>
   (\<exists>cs. chunkText ''abcdefg'' 4 1 = Some cs \<and> concat (map (take 3) cs) = ''abcdefg'')"
  using chunkText_cover[of 1 4 "''abcdefg''"] by auto

text \<open>
  C8 as stated fails at a text of four characters, size 4 and overlap 3: the second and
  the third of the four chunks share two characters, not three, and the third chunk is not
  the last.
\<close>

theorem chunkText_cover_counterexample:
  "map_option (\<lambda>cs. (cs, map (shared_with_next cs (nat (4 - 3))) [0 ..< 3])) (chunkText ''abcd'' 4 3) =
     Some ([''abcd'', ''bcd'', ''cd'', ''d''], [3, 2, 1])"
  by (simp add: chunkText_def chunk_loop.simps slice_js_def shared_with_next_def upt_rec)

section \<open>Rounding\<close>

lemma pow2_powr: "pow2 e = 2 powr real_of_int e"
proof (cases "0 \<le> e")
  case True
  then show ?thesis by (simp add: pow2_def powr_realpow[symmetric])
next
  case False
  have "(2::real) ^ nat (- e) = 2 powr real (nat (- e))" by (simp add: powr_realpow)
  also have "real (nat (- e)) = - real_of_int e" using False by simp
  finally have "(2::real) ^ nat (- e) = 2 powr (- real_of_int e)" .
  then show ?thesis using False by (simp add: pow2_def powr_minus_divide)
qed

lemma pow2_pos [simp]: "0 < pow2 e"
  by (simp add: pow2_powr)

lemma pow2_nonneg [simp]: "0 \<le> pow2 e"
  using pow2_pos[of e] by linarith

lemma pow2_neq0 [simp]: "pow2 e \<noteq> 0"
  using pow2_pos[of e] by linarith

lemma pow2_not_le0 [simp]: "\<not> pow2 e \<le> 0"
  using pow2_pos[of e] by linarith

lemma pow2_add: "pow2 (a + b) = pow2 a * pow2 b"
  by (simp add: pow2_powr powr_add)

lemma pow2_mono: "a \<le> b \<Longrightarrow> pow2 a \<le> pow2 b"
  by (simp add: pow2_powr)

lemma pow2_less_iff: "pow2 a < pow2 b \<longleftrightarrow> a < b"
  by (simp add: pow2_powr)

lemma pow2_nat: "0 \<le> e \<Longrightarrow> pow2 e = real_of_int (2 ^ nat e)"
  by (simp add: pow2_def)

lemma expo_bounds:
  assumes "x \<noteq> 0"
  shows "pow2 (expo x) \<le> \<bar>x\<bar>" "\<bar>x\<bar> < pow2 (expo x + 1)"
proof -
  have "0 < \<bar>x\<bar>" using assms by simp
  then have "2 powr real_of_int (expo x) \<le> \<bar>x\<bar> \<and> \<bar>x\<bar> < 2 powr real_of_int (expo x + 1)"
    using floor_log_eq_powr_iff[of "\<bar>x\<bar>" 2 "expo x"] by (simp add: expo_def)
  then show "pow2 (expo x) \<le> \<bar>x\<bar>" "\<bar>x\<bar> < pow2 (expo x + 1)" by (simp_all add: pow2_powr)
qed

lemma expo_eq:
  assumes "pow2 e \<le> \<bar>x\<bar>" "\<bar>x\<bar> < pow2 (e + 1)"
  shows "expo x = e"
proof -
  have "0 < \<bar>x\<bar>" using assms(1) pow2_pos[of e] by linarith
  then show ?thesis
    unfolding expo_def using assms by (subst floor_log_eq_powr_iff) (simp_all add: pow2_powr)
qed

lemma expo_le:
  assumes "x \<noteq> 0" "\<bar>x\<bar> < pow2 (e + 1)"
  shows "expo x \<le> e"
proof -
  have "pow2 (expo x) < pow2 (e + 1)" using expo_bounds(1)[OF assms(1)] assms(2) by linarith
  then show ?thesis by (simp add: pow2_less_iff)
qed

lemma expo_minus [simp]: "expo (- x) = expo x"
  by (simp add: expo_def)

lemma quantum_minus [simp]: "quantum (- x) = quantum x"
  by (simp add: quantum_def)

lemma pow2_quantum_le:
  assumes "pow2 (- 1074) \<le> \<bar>x\<bar>"
  shows "pow2 (quantum x) \<le> \<bar>x\<bar>"
proof -
  have nz: "x \<noteq> 0" using assms pow2_pos[of "- 1074"] by auto
  show ?thesis
  proof (cases "expo x - 52 \<le> - 1074")
    case True
    then show ?thesis using assms by (simp add: quantum_def max_def)
  next
    case False
    then have "quantum x = expo x - 52" by (simp add: quantum_def)
    moreover have "pow2 (expo x - 52) \<le> pow2 (expo x)" by (rule pow2_mono) simp
    ultimately show ?thesis using expo_bounds(1)[OF nz] by simp
  qed
qed

lemma rne_near: "\<bar>real_of_int (rne q) - q\<bar> \<le> 1 / 2"
proof -
  have "real_of_int \<lfloor>q\<rfloor> \<le> q" "q < real_of_int \<lfloor>q\<rfloor> + 1" by linarith+
  then show ?thesis by (auto simp: rne_def Let_def)
qed

lemma rne_nonneg: "0 \<le> q \<Longrightarrow> 0 \<le> rne q"
  using rne_near[of q] by linarith

lemma rne_ge_one: "1 \<le> q \<Longrightarrow> 1 \<le> rne q"
  using rne_near[of q] by linarith

lemma rne_eqI:
  assumes "real_of_int m - 1 / 2 < q" "q < real_of_int m + 1 / 2"
  shows "rne q = m"
  using rne_near[of q] assms by linarith

lemma rne_of_int [simp]: "rne (real_of_int m) = m"
  by (rule rne_eqI) simp_all

lemma rne_minus: "rne (- q) = - rne q"
proof (cases "q = real_of_int \<lfloor>q\<rfloor>")
  case True
  then obtain m where "q = real_of_int m" by metis
  then show ?thesis using rne_of_int[of "- m"] by simp
next
  case False
  define f where "f = \<lfloor>q\<rfloor>"
  have fl: "real_of_int f < q" "q < real_of_int f + 1" using False by (simp_all add: f_def) linarith+
  have nf: "\<lfloor>- q\<rfloor> = - f - 1" using fl by linarith
  have ev: "even (- f - 1) \<longleftrightarrow> odd f" by simp
  show ?thesis
    unfolding rne_def Let_def nf f_def[symmetric]
    using fl by (auto simp: ev)
qed

lemma rnd_fin_minus: "rnd_fin (- x) = - rnd_fin x"
  by (simp add: rnd_fin_def rne_minus)

lemma rnd_minus: "rnd (- x) = fneg (rnd x)"
proof -
  have "pow2 1024 \<le> - rnd_fin x \<longleftrightarrow> rnd_fin x \<le> - pow2 1024" by linarith
  moreover have "- rnd_fin x \<le> - pow2 1024 \<longleftrightarrow> pow2 1024 \<le> rnd_fin x" by linarith
  moreover have "\<not> (pow2 1024 \<le> rnd_fin x \<and> rnd_fin x \<le> - pow2 1024)"
    using pow2_pos[of 1024] by linarith
  ultimately show ?thesis by (auto simp: rnd_def Let_def rnd_fin_minus)
qed

lemma rnd_zero [simp]: "rnd 0 = Fin 0"
  by (simp add: rnd_def rnd_fin_def)

lemma rnd_fin_near: "\<bar>rnd_fin x - x\<bar> \<le> pow2 (quantum x) / 2"
proof (cases "x = 0")
  case True
  then show ?thesis by (simp add: rnd_fin_def)
next
  case False
  let ?u = "pow2 (quantum x)"
  have "\<bar>real_of_int (rne (x / ?u)) - x / ?u\<bar> \<le> 1 / 2" by (rule rne_near)
  then have "\<bar>real_of_int (rne (x / ?u)) - x / ?u\<bar> * ?u \<le> 1 / 2 * ?u"
    by (intro mult_right_mono) simp_all
  moreover have "\<bar>real_of_int (rne (x / ?u)) - x / ?u\<bar> * ?u = \<bar>real_of_int (rne (x / ?u)) * ?u - x\<bar>"
  proof -
    have "\<bar>real_of_int (rne (x / ?u)) - x / ?u\<bar> * ?u = \<bar>(real_of_int (rne (x / ?u)) - x / ?u) * ?u\<bar>"
      by (simp add: abs_mult)
    also have "(real_of_int (rne (x / ?u)) - x / ?u) * ?u = real_of_int (rne (x / ?u)) * ?u - x"
      by (simp add: left_diff_distrib)
    finally show ?thesis .
  qed
  ultimately show ?thesis using False by (simp add: rnd_fin_def)
qed

lemma rnd_fin_nonneg: "0 \<le> x \<Longrightarrow> 0 \<le> rnd_fin x"
  by (simp add: rnd_fin_def rne_nonneg)

lemma rnd_fin_pos:
  assumes "pow2 (- 1074) \<le> x"
  shows "0 < rnd_fin x"
proof -
  have x: "0 < x" using assms pow2_pos[of "- 1074"] by linarith
  then have "pow2 (quantum x) \<le> x" using pow2_quantum_le[of x] assms by simp
  then have "1 \<le> x / pow2 (quantum x)" by (simp add: le_divide_eq)
  then have "1 \<le> rne (x / pow2 (quantum x))" by (rule rne_ge_one)
  then have "0 < real_of_int (rne (x / pow2 (quantum x))) * pow2 (quantum x)" by simp
  then show ?thesis using x by (simp add: rnd_fin_def)
qed

lemma rnd_fin_grid: "on_grid (rnd_fin x)"
proof (cases "x = 0")
  case True
  then show ?thesis unfolding on_grid_def by (intro exI[of _ 0]) (simp add: rnd_fin_def)
next
  case False
  have q: "- 1074 \<le> quantum x" by (simp add: quantum_def)
  have "pow2 (quantum x) = pow2 (quantum x + 1074) * pow2 (- 1074)"
    using pow2_add[of "quantum x + 1074" "- 1074"] by simp
  also have "pow2 (quantum x + 1074) = real_of_int (2 ^ nat (quantum x + 1074))"
    using q by (intro pow2_nat) simp
  finally have "rnd_fin x =
      real_of_int (rne (x / pow2 (quantum x)) * 2 ^ nat (quantum x + 1074)) * pow2 (- 1074)"
    using False by (simp add: rnd_fin_def)
  then show ?thesis unfolding on_grid_def by blast
qed

lemma rnd_cases:
  obtains "rnd x = PInf" "pow2 1024 \<le> rnd_fin x"
  | "rnd x = NInf" "rnd_fin x \<le> - pow2 1024"
  | "rnd x = Fin (rnd_fin x)" "\<bar>rnd_fin x\<bar> < pow2 1024"
  by (cases "pow2 1024 \<le> rnd_fin x"; cases "rnd_fin x \<le> - pow2 1024")
     (auto simp: rnd_def Let_def)

lemma rnd_eval_num:
  assumes "pow2 e \<le> \<bar>x\<bar>" "\<bar>x\<bar> < pow2 (e + 1)" "- 1022 \<le> e" "e \<le> 1022"
  shows "rnd x = Fin (real_of_int (rne (x / pow2 (e - 52))) * pow2 (e - 52))"
proof -
  have nz: "x \<noteq> 0" using assms(1) pow2_pos[of e] by auto
  have q: "quantum x = e - 52" using expo_eq[OF assms(1,2)] assms(3) by (simp add: quantum_def)
  have "\<bar>rnd_fin x - x\<bar> \<le> pow2 (e - 52) / 2" using rnd_fin_near[of x] by (simp add: q)
  moreover have "pow2 (e - 52) \<le> pow2 (e + 1)" by (rule pow2_mono) simp
  ultimately have "\<bar>rnd_fin x\<bar> < 2 * pow2 (e + 1)" using assms(2) pow2_pos[of "e - 52"] by linarith
  moreover have "2 * pow2 (e + 1) = pow2 (e + 2)"
  proof -
    have "pow2 1 = 2" by (simp add: pow2_def)
    then show ?thesis using pow2_add[of "e + 1" 1] by (simp add: add.assoc)
  qed
  moreover have "pow2 (e + 2) \<le> pow2 1024" using assms(4) by (intro pow2_mono) simp
  ultimately have "\<bar>rnd_fin x\<bar> < pow2 1024" by linarith
  then have "rnd x = Fin (rnd_fin x)" by (auto simp: rnd_def Let_def)
  then show ?thesis using nz by (simp add: rnd_fin_def q)
qed

lemma rnd_one [simp]: "rnd 1 = Fin 1"
  by (subst rnd_eval_num[of 0]) (simp_all add: pow2_def rne_def)

lemma rnd_not_NaN [simp]: "rnd x \<noteq> NaN"
  by (cases x rule: rnd_cases) simp_all

lemma rnd_pos:
  assumes "pow2 (- 1074) \<le> x"
  shows "rnd x = PInf \<or> (\<exists>y. 0 < y \<and> rnd x = Fin y)"
  using rnd_fin_pos[OF assms] pow2_pos[of 1024]
  by (cases x rule: rnd_cases) auto

lemma rnd_nonneg:
  assumes "0 \<le> x"
  shows "nonneg_num (rnd x)"
  using rnd_fin_nonneg[OF assms] pow2_pos[of 1024]
  by (cases x rule: rnd_cases) auto

lemma rnd_grid: "rnd x = Fin y \<Longrightarrow> on_grid y"
  using rnd_fin_grid[of x] by (cases x rule: rnd_cases) auto

lemma on_grid_zero [simp]: "on_grid 0"
  unfolding on_grid_def by (intro exI[of _ 0]) simp

lemma on_grid_diff: "on_grid a \<Longrightarrow> on_grid b \<Longrightarrow> on_grid (b - a)"
proof -
  assume "on_grid a" "on_grid b"
  then obtain m n :: int where "a = real_of_int m * pow2 (- 1074)" "b = real_of_int n * pow2 (- 1074)"
    unfolding on_grid_def by blast
  then have "b - a = real_of_int (n - m) * pow2 (- 1074)" by (simp add: left_diff_distrib)
  then show ?thesis unfolding on_grid_def by blast
qed

lemma on_grid_pos:
  assumes "on_grid z" "0 < z"
  shows "pow2 (- 1074) \<le> z"
proof -
  from assms(1) obtain m :: int where m: "z = real_of_int m * pow2 (- 1074)"
    unfolding on_grid_def by blast
  have "0 < real_of_int m" using assms(2) m pow2_pos[of "- 1074"] by (simp add: zero_less_mult_iff)
  then have "1 \<le> real_of_int m" by simp
  then have "1 * pow2 (- 1074) \<le> real_of_int m * pow2 (- 1074)"
    by (intro mult_right_mono) simp_all
  then show ?thesis using m by simp
qed

text \<open>The sign of a rounded difference of two values of the grid is the sign of the difference.\<close>

lemma rnd_sign:
  assumes "on_grid z"
  shows "(0 < z \<longrightarrow> flt (Fin 0) (rnd z)) \<and> (z < 0 \<longrightarrow> flt (rnd z) (Fin 0)) \<and>
         (z = 0 \<longrightarrow> rnd z = Fin 0)"
proof (intro conjI impI)
  assume "0 < z"
  from rnd_pos[OF on_grid_pos[OF assms this]] show "flt (Fin 0) (rnd z)" by auto
next
  assume neg: "z < 0"
  have "on_grid (- z)" using on_grid_diff[OF assms on_grid_zero] by simp
  from rnd_pos[OF on_grid_pos[OF this]] neg
  have "rnd (- z) = PInf \<or> (\<exists>y. 0 < y \<and> rnd (- z) = Fin y)" by simp
  moreover have "rnd z = fneg (rnd (- z))" using rnd_minus[of "- z"] by simp
  ultimately show "flt (rnd z) (Fin 0)" by auto
next
  assume "z = 0"
  then show "rnd z = Fin 0" by simp
qed

lemma flt_irrefl [simp]: "\<not> flt a a"
  by (cases a) simp_all

lemma fsub_Fin: "fsub (Fin b) (Fin a) = rnd (b - a)"
  by (simp add: fsub_def)

lemma fdiv_grid: "fdiv a b = Fin z \<Longrightarrow> on_grid z"
  by (induction a b rule: fdiv.induct) (auto simp: inf_of_def dest: rnd_grid split: if_splits)

lemma cosine_grid: "cosine a b = Fin z \<Longrightarrow> on_grid z"
  by (auto simp: cosine_def split: prod.splits dest: fdiv_grid)

section \<open>The sums of the scorer\<close>

lemma fmul_self_nonneg: "nonneg_num (fmul v v) \<or> fmul v v = NaN"
  by (cases v) (simp_all add: rnd_nonneg)

lemma nonneg_num_NaN [simp]: "nonneg_num NaN"
  by simp

lemma fadd_nonneg: "nonneg_num a \<Longrightarrow> nonneg_num b \<Longrightarrow> nonneg_num (fadd a b)"
  by (cases a; cases b) (simp_all add: rnd_nonneg)

lemma fmul_self_nonneg': "nonneg_num (fmul v v)"
  using fmul_self_nonneg[of v] by auto

lemma cosine_fold_nonneg:
  assumes "nonneg_num na" "nonneg_num nb"
  shows "case fold (cosine_step a b) is (d, na, nb) of (d', na', nb') \<Rightarrow> nonneg_num na' \<and> nonneg_num nb'"
  using assms
proof (induction "is" arbitrary: d na nb)
  case Nil
  then show ?case by simp
next
  case (Cons i "is")
  show ?case
    using Cons.IH[of "fadd na (fmul (a ! i) (a ! i))" "fadd nb (fmul (nth_num b i) (nth_num b i))"
          "fadd d (fmul (a ! i) (nth_num b i))"]
      Cons.prems fadd_nonneg fmul_self_nonneg'
    by (simp add: cosine_step_def)
qed

lemma cosine_sums_nonneg:
  "cosine_sums a b = (d, na, nb) \<Longrightarrow> nonneg_num na \<and> nonneg_num nb"
  using cosine_fold_nonneg[of "Fin 0" "Fin 0" a b "[0 ..< length a]" "Fin 0"]
  by (simp add: cosine_sums_def)

lemma sqrt_finite:
  assumes "0 \<le> x" "x < pow2 1024"
  shows "\<exists>s. 0 \<le> s \<and> rnd (sqrt x) = Fin s"
proof (cases "x = 0")
  case True
  then show ?thesis by simp
next
  case False
  have p: "pow2 512 * pow2 512 = pow2 1024" using pow2_add[of 512 512] by simp
  have "sqrt x < sqrt (pow2 1024)" using assms by simp
  also have "sqrt (pow2 1024) = pow2 512"
    using p by (metis pow2_nonneg real_sqrt_mult_self abs_of_nonneg real_sqrt_mult)
  finally have lt: "sqrt x < pow2 512" .
  have pos: "0 < sqrt x" using assms False by simp
  have "expo (sqrt x) \<le> 511" using lt pos by (intro expo_le) simp_all
  then have "quantum (sqrt x) \<le> 459" by (simp add: quantum_def)
  then have "pow2 (quantum (sqrt x)) \<le> pow2 459" by (rule pow2_mono)
  moreover have "pow2 459 \<le> pow2 512" by (rule pow2_mono) simp
  ultimately have "\<bar>rnd_fin (sqrt x)\<bar> < 2 * pow2 512"
    using rnd_fin_near[of "sqrt x"] lt pos by linarith
  moreover have "2 * pow2 512 \<le> pow2 1024"
  proof -
    have "(2::real) \<le> pow2 512" by (simp add: pow2_def)
    then have "2 * pow2 512 \<le> pow2 512 * pow2 512" by (intro mult_right_mono) simp_all
    then show ?thesis by (simp add: p)
  qed
  ultimately have "\<bar>rnd_fin (sqrt x)\<bar> < pow2 1024" by linarith
  then have "rnd (sqrt x) = Fin (rnd_fin (sqrt x))" by (auto simp: rnd_def Let_def)
  moreover have "0 \<le> rnd_fin (sqrt x)" using pos by (intro rnd_fin_nonneg) simp
  ultimately show ?thesis by blast
qed

lemma eps_num: "rnd (1 / 10 ^ 9) = Fin (4835703278458517 * pow2 (- 82))"
  by (subst rnd_eval_num[of "-30"]) (simp_all add: pow2_def rne_def Let_def)

lemma cosine_zero_dot:
  assumes "cosine_sums a b = (Fin 0, Fin x, Fin y)"
  shows "cosine a b = Fin 0"
proof -
  from cosine_sums_nonneg[OF assms] have x: "0 \<le> x" "x < pow2 1024" and y: "0 \<le> y" "y < pow2 1024"
    by simp_all
  from sqrt_finite[OF x] obtain sx where sx: "0 \<le> sx" "rnd (sqrt x) = Fin sx" by blast
  from sqrt_finite[OF y] obtain sy where sy: "0 \<le> sy" "rnd (sqrt y) = Fin sy" by blast
  define e :: real where "e = 4835703278458517 * pow2 (- 82)"
  have e: "pow2 (- 1074) \<le> e"
  proof -
    have "pow2 (- 1074) \<le> pow2 (- 82)" by (rule pow2_mono) simp
    moreover have "pow2 (- 82) \<le> e" using pow2_pos[of "- 82"] by (simp add: e_def)
    ultimately show ?thesis by linarith
  qed
  have den: "fadd (fmul (Fin sx) (Fin sy)) (Fin e) = PInf \<or>
             (\<exists>d. 0 < d \<and> fadd (fmul (Fin sx) (Fin sy)) (Fin e) = Fin d)"
  proof -
    have "nonneg_num (rnd (sx * sy))" using sx(1) sy(1) by (intro rnd_nonneg) simp
    then consider "rnd (sx * sy) = PInf" | p where "rnd (sx * sy) = Fin p" "0 \<le> p"
      by (cases "rnd (sx * sy)") auto
    then show ?thesis
    proof cases
      case 1
      then show ?thesis by simp
    next
      case 2
      have "pow2 (- 1074) \<le> p + e" using 2(2) e by linarith
      from rnd_pos[OF this] show ?thesis using 2(1) by simp
    qed
  qed
  have eps: "rnd (1 / 1000000000) = Fin e" using eps_num by (simp add: e_def)
  have "cosine a b = fdiv (Fin 0) (fadd (fmul (Fin sx) (Fin sy)) (Fin e))"
    using x(1) y(1) by (simp add: cosine_def assms sx(2) sy(2) eps not_less[symmetric])
  also have "\<dots> = Fin 0" using den by auto
  finally show ?thesis .
qed



section \<open>Values that rounding leaves as they are\<close>

lemma rnd_fin_exact:
  assumes x: "x = real_of_int m * pow2 q" and m: "\<bar>m\<bar> < 2 ^ 53" and q: "- 1074 \<le> q"
  shows "rnd_fin x = x"
proof (cases "x = 0")
  case True
  then show ?thesis by (simp add: rnd_fin_def)
next
  case False
  have "\<bar>x\<bar> = real_of_int \<bar>m\<bar> * pow2 q" by (simp add: x abs_mult)
  also have "\<dots> < real_of_int (2 ^ 53) * pow2 q"
    using m by (intro mult_strict_right_mono) simp_all
  also have "real_of_int (2 ^ 53) * pow2 q = pow2 (q + 52 + 1)"
    using pow2_add[of 53 q] by (simp add: pow2_def add.commute)
  finally have "expo x \<le> q + 52" using False by (intro expo_le)
  then have le: "quantum x \<le> q" using q by (simp add: quantum_def)
  define k where "k = q - quantum x"
  have k: "0 \<le> k" using le by (simp add: k_def)
  define u where "u = pow2 (quantum x)"
  have u: "u \<noteq> 0" by (simp add: u_def)
  have pq: "pow2 q = pow2 k * u" using pow2_add[of k "quantum x"] by (simp add: k_def u_def)
  have "x = real_of_int m * pow2 k * u" by (simp add: x pq)
  then have "x / u = real_of_int m * pow2 k" using u by simp
  also have "\<dots> = real_of_int (m * 2 ^ nat k)" using k by (simp add: pow2_nat)
  finally have "x / u = real_of_int (m * 2 ^ nat k)" .
  then have "rne (x / u) = m * 2 ^ nat k" by (simp only: rne_of_int)
  then have "rnd_fin x = real_of_int (m * 2 ^ nat k) * u"
    using False by (simp add: rnd_fin_def u_def)
  also have "\<dots> = real_of_int m * (pow2 k * u)" using k by (simp add: pow2_nat)
  also have "\<dots> = x" by (simp add: x pq)
  finally show ?thesis .
qed

lemma rnd_exact:
  assumes x: "x = real_of_int m * pow2 q" and m: "\<bar>m\<bar> < 2 ^ 53" and q: "- 1074 \<le> q" "q \<le> 970"
  shows "rnd x = Fin x"
proof -
  have "\<bar>x\<bar> = real_of_int \<bar>m\<bar> * pow2 q" by (simp add: x abs_mult)
  also have "\<dots> \<le> real_of_int (2 ^ 53) * pow2 q"
    using m by (intro mult_right_mono) simp_all
  also have "real_of_int (2 ^ 53) * pow2 q = pow2 (q + 53)"
    using pow2_add[of 53 q] by (simp add: pow2_def add.commute)
  also have "\<dots> \<le> pow2 1023" using q(2) by (intro pow2_mono) simp
  also have "\<dots> < pow2 1024" by (simp add: pow2_less_iff)
  finally have "\<bar>x\<bar> < pow2 1024" .
  then show ?thesis using rnd_fin_exact[OF x m q(1)] by (auto simp: rnd_def Let_def)
qed

lemma rnd_int:
  assumes "\<bar>m\<bar> < 2 ^ 53"
  shows "rnd (real_of_int m) = Fin (real_of_int m)"
  by (rule rnd_exact[of _ m 0]) (use assms in \<open>simp_all add: pow2_def\<close>)

section \<open>The scorer at concrete vectors\<close>

lemma rnd_numeral [simp]:
  "numeral k < (2 :: int) ^ 53 \<Longrightarrow> rnd (numeral k) = Fin (numeral k)"
  using rnd_int[of "numeral k"] by simp


lemma eps_lit: "rnd (1 / 1000000000) = Fin (4835703278458517 * pow2 (- 82))"
  using eps_num by simp

lemma sums_1: "cosine_sums [Fin 1] [Fin 1] = (Fin 1, Fin 1, Fin 1)"
  by (simp add: cosine_sums_def cosine_step_def nth_num_def)

lemma one_plus_eps: "rnd (1 + 4835703278458517 * pow2 (- 82)) = Fin (1 + 4503600 * pow2 (- 52))"
  by (subst rnd_eval_num[of 0]) (simp_all add: pow2_def rne_def Let_def)

lemma inv_one_plus_eps: "rnd (1 / (1 + 4503600 * pow2 (- 52))) = Fin (9007199245733792 * pow2 (- 53))"
  by (subst rnd_eval_num[of "-1"]) (simp_all add: pow2_def rne_def Let_def)

lemma cosine_unit_sums:
  assumes "cosine_sums a b = (Fin 1, Fin 1, Fin 1)"
  shows "cosine a b = Fin (9007199245733792 * pow2 (- 53))"
proof -
  have "cosine a b = fdiv (Fin 1) (fadd (Fin 1) (rnd (1 / 1000000000)))"
    by (simp add: cosine_def assms)
  also have "\<dots> = fdiv (Fin 1) (rnd (1 + 4835703278458517 * pow2 (- 82)))"
    by (simp only: eps_lit fadd.simps)
  also have "\<dots> = fdiv (Fin 1) (Fin (1 + 4503600 * pow2 (- 52)))"
    by (simp only: one_plus_eps)
  also have "\<dots> = rnd (1 / (1 + 4503600 * pow2 (- 52)))"
    by (simp add: pow2_def)
  finally show ?thesis by (simp only: inv_one_plus_eps)
qed

lemma cosine_unit: "cosine [Fin 1] [Fin 1] = Fin (9007199245733792 * pow2 (- 53))"
  by (rule cosine_unit_sums[OF sums_1])



















section \<open>Cosine similarity: the values at identical and at orthogonal vectors\<close>

subsection \<open>Underflow, overflow and products that vanish\<close>








subsection \<open>Claim about the scorer\<close>




section \<open>The admin middleware\<close>

lemma requireAdmin_cases:
  "requireAdmin cfg authorization =
     (if ADMIN_TOKEN cfg = [] then Some (status_json 500 (ErrorBody ''ADMIN_TOKEN not set on server''))
      else if authorization = bearer (ADMIN_TOKEN cfg) then None
      else Some (status_json 401 (ErrorBody ''unauthorized'')))"
proof (cases "ADMIN_TOKEN cfg = []")
  case True
  then show ?thesis by (simp add: requireAdmin_def)
next
  case False
  show ?thesis
  proof (cases authorization)
    case None
    then show ?thesis using False by (simp add: requireAdmin_def bearer_def startsWith_def)
  next
    case (Some a)
    have "(startsWith a ''Bearer '' \<and> drop 7 a = ADMIN_TOKEN cfg) \<longleftrightarrow> a = ''Bearer '' @ ADMIN_TOKEN cfg"
    proof
      assume h: "startsWith a ''Bearer '' \<and> drop 7 a = ADMIN_TOKEN cfg"
      moreover have "length ''Bearer '' = 7" by simp
      ultimately have "take 7 a = ''Bearer ''" by (simp only: startsWith_def)
      with h show "a = ''Bearer '' @ ADMIN_TOKEN cfg"
        by (metis append_take_drop_id)
    next
      assume "a = ''Bearer '' @ ADMIN_TOKEN cfg"
      then show "startsWith a ''Bearer '' \<and> drop 7 a = ADMIN_TOKEN cfg"
        by (simp add: startsWith_def)
    qed
    then show ?thesis using False Some
      by (auto simp: requireAdmin_def bearer_def Let_def slice_js_to_end)
  qed
qed

text \<open>
  C9, as amended. When an admin token is configured, every request to an admin route whose
  \<^verbatim>\<open>authorization\<close> header is not \<^verbatim>\<open>Bearer <token>\<close> is answered with HTTP 401
  \<^verbatim>\<open>unauthorized\<close>; when no token is configured, every request is answered with HTTP 500.
  In both cases the handler is not reached and the state is unchanged. A request that
  carries the configured token reaches the handler.
\<close>

theorem admin_route_gate:
  "(ADMIN_TOKEN cfg \<noteq> [] \<and> authorization \<noteq> bearer (ADMIN_TOKEN cfg) \<longrightarrow>
      admin_route cfg authorization handler st = Some (st, status_json 401 (ErrorBody ''unauthorized''))) \<and>
   (ADMIN_TOKEN cfg = [] \<longrightarrow>
      admin_route cfg authorization handler st =
        Some (st, status_json 500 (ErrorBody ''ADMIN_TOKEN not set on server''))) \<and>
   (ADMIN_TOKEN cfg \<noteq> [] \<and> authorization = bearer (ADMIN_TOKEN cfg) \<longrightarrow>
      admin_route cfg authorization handler st = handler st)"
  by (simp add: admin_route_def requireAdmin_cases)

text \<open>A wrong token against a configured one.\<close>

theorem admin_route_gate_witness:
  "ADMIN_TOKEN (default_config ''s3cret'') \<noteq> [] \<and>
   Some ''Bearer guess'' \<noteq> bearer (ADMIN_TOKEN (default_config ''s3cret'')) \<and>
   admin_route (default_config ''s3cret'') (Some ''Bearer guess'') (\<lambda>st. None)
       \<lparr>items = [], disk = [], calls = []\<rparr> =
     Some (\<lparr>items = [], disk = [], calls = []\<rparr>, status_json 401 (ErrorBody ''unauthorized''))"
  using admin_route_gate[of "default_config ''s3cret''" "Some ''Bearer guess''" "\<lambda>st. None"
      "\<lparr>items = [], disk = [], calls = []\<rparr>"]
  by (simp add: default_config_def bearer_def)

text \<open>
  C9 as stated fails on a server without \<^verbatim>\<open>ADMIN_TOKEN\<close>: the request does not carry the
  configured token, and the response is HTTP 500, not 401.
\<close>

theorem admin_route_gate_counterexample:
  "requireAdmin (default_config []) (Some ''Bearer guess'') =
     Some \<lparr>status = 500, payload = ErrorBody ''ADMIN_TOKEN not set on server''\<rparr>"
  by (simp add: requireAdmin_def default_config_def status_json_def)

section \<open>The retriever\<close>

subsection \<open>The comparator on finite scores\<close>

lemma flt_asym: "flt a b \<Longrightarrow> \<not> flt b a"
  by (cases a; cases b) auto

lemma rnd_sign_iff:
  assumes "on_grid z"
  shows "flt (Fin 0) (rnd z) \<longleftrightarrow> 0 < z" "flt (rnd z) (Fin 0) \<longleftrightarrow> z < 0" "rnd z = Fin 0 \<longleftrightarrow> z = 0"
proof -
  note s = rnd_sign[OF assms]
  show "flt (Fin 0) (rnd z) \<longleftrightarrow> 0 < z"
  proof
    assume p: "flt (Fin 0) (rnd z)"
    show "0 < z"
    proof (rule ccontr)
      assume "\<not> 0 < z"
      then consider "z = 0" | "z < 0" by linarith
      then show False
      proof cases
        case 1 with s p show False by simp
      next
        case 2 with s p flt_asym show False by blast
      qed
    qed
  qed (use s in simp)
  show "flt (rnd z) (Fin 0) \<longleftrightarrow> z < 0"
  proof
    assume p: "flt (rnd z) (Fin 0)"
    show "z < 0"
    proof (rule ccontr)
      assume "\<not> z < 0"
      then consider "z = 0" | "0 < z" by linarith
      then show False
      proof cases
        case 1 with s p show False by simp
      next
        case 2 with s p flt_asym show False by blast
      qed
    qed
  qed (use s in simp)
  show "rnd z = Fin 0 \<longleftrightarrow> z = 0"
  proof
    assume p: "rnd z = Fin 0"
    show "z = 0"
    proof (rule ccontr)
      assume "z \<noteq> 0"
      then consider "z < 0" | "0 < z" by linarith
      then show False
      proof cases
        case 1 with s p show False by simp
      next
        case 2 with s p show False by simp
      qed
    qed
  qed (use s in simp)
qed

lemma comparator_signs:
  assumes "fin_score a" "fin_score b"
  shows "cf_gt comparator a b \<longleftrightarrow> fin_val (score a) < fin_val (score b)"
    and "cf_lt comparator a b \<longleftrightarrow> fin_val (score b) < fin_val (score a)"
    and "cf_eq comparator a b \<longleftrightarrow> fin_val (score a) = fin_val (score b)"
    and "comparator a b \<noteq> NaN"
proof -
  obtain va vb where a: "score a = Fin va" "on_grid va" and b: "score b = Fin vb" "on_grid vb"
    using assms by (cases "score a"; cases "score b") (auto simp: fin_score_def)
  have c: "comparator a b = rnd (vb - va)" by (simp add: comparator_def a b fsub_Fin)
  have g: "on_grid (vb - va)" using a b by (intro on_grid_diff)
  show "cf_gt comparator a b \<longleftrightarrow> fin_val (score a) < fin_val (score b)"
    using rnd_sign_iff(1)[OF g] by (simp add: cf_gt_def c a b)
  show "cf_lt comparator a b \<longleftrightarrow> fin_val (score b) < fin_val (score a)"
    using rnd_sign_iff(2)[OF g] by (simp add: cf_lt_def c a b)
  show "cf_eq comparator a b \<longleftrightarrow> fin_val (score a) = fin_val (score b)"
    using rnd_sign_iff(3)[OF g] by (auto simp: cf_eq_def c a b)
  show "comparator a b \<noteq> NaN" by (simp add: c)
qed

lemma comparator_consistent:
  assumes "\<forall>t \<in> set xs. fin_score t"
  shows "consistent comparator xs"
  unfolding consistent_def
proof (intro ballI)
  fix a b d
  assume "a \<in> set xs" "b \<in> set xs" "d \<in> set xs"
  then have f: "fin_score a" "fin_score b" "fin_score d" using assms by auto
  show "comparator a b \<noteq> NaN \<and> cf_eq comparator a a \<and>
        (cf_eq comparator a b \<longrightarrow> cf_eq comparator b a) \<and>
        (cf_eq comparator a b \<and> cf_eq comparator b d \<longrightarrow> cf_eq comparator a d) \<and>
        (cf_lt comparator a b \<and> cf_lt comparator b d \<longrightarrow> cf_lt comparator a d) \<and>
        (cf_gt comparator a b \<and> cf_gt comparator b d \<longrightarrow> cf_gt comparator a d)"
    using f by (simp add: comparator_signs)
qed

subsection \<open>The stable sort as a sort by key\<close>

lemma ins_cmp_insort:
  assumes "fin_score x" "\<forall>t \<in> set ys. fin_score t"
  shows "ins_cmp comparator x ys = insort_key (\<lambda>t. - fin_val (score t)) x ys"
  using assms(2)
proof (induction ys)
  case Nil
  then show ?case by simp
next
  case (Cons y ys)
  then have "fin_score y" by simp
  then have "cf_gt comparator x y \<longleftrightarrow> fin_val (score x) < fin_val (score y)"
    using assms(1) by (simp add: comparator_signs)
  then show ?case using Cons by auto
qed

lemma sort_stable_sort_key:
  assumes "\<forall>t \<in> set xs. fin_score t"
  shows "sort_stable comparator xs = sort_key (\<lambda>t. - fin_val (score t)) xs"
  using assms
proof (induction xs)
  case Nil
  then show ?case by (simp add: sort_stable_def)
next
  case (Cons x xs)
  then have ih: "sort_stable comparator xs = sort_key (\<lambda>t. - fin_val (score t)) xs" by simp
  have "\<forall>t \<in> set (sort_key (\<lambda>t. - fin_val (score t)) xs). fin_score t" using Cons.prems by simp
  then have "ins_cmp comparator x (sort_key (\<lambda>t. - fin_val (score t)) xs) =
             insort_key (\<lambda>t. - fin_val (score t)) x (sort_key (\<lambda>t. - fin_val (score t)) xs)"
    using Cons.prems by (intro ins_cmp_insort) simp_all
  then show ?case using ih by (simp add: sort_stable_def)
qed

lemma scored_fin:
  assumes "finite_scores qEmb its"
  shows "\<forall>t \<in> set (map (scored_of qEmb) its). fin_score t"
proof
  fix t assume "t \<in> set (map (scored_of qEmb) its)"
  then obtain it where it: "it \<in> set its" "t = scored_of qEmb it" by auto
  then have "is_fin (cosine qEmb (embedding it))" using assms by (simp add: finite_scores_def list_all_iff)
  then obtain v where v: "cosine qEmb (embedding it) = Fin v" by (cases "cosine qEmb (embedding it)") auto
  then have "on_grid v" by (rule cosine_grid)
  then show "fin_score t" by (simp add: fin_score_def it scored_of_def v)
qed

lemma take_min_length: "take (min k (length xs)) xs = take k xs"
  by (simp add: min_def)

lemma topKByCosine_take:
  "topKByCosine x its qEmb k = take k (js_sort comparator (sort_impl x) (map (scored_of qEmb) its))"
proof -
  have "nat (min (int k) (int n)) = min k n" for n by (simp add: min_def)
  then show ?thesis
    by (simp add: topKByCosine_def Let_def slice_js_from_0 take_min_length)
qed

lemma topKByCosine_spec:
  assumes "finite_scores qEmb its"
  shows "topKByCosine x its qEmb k =
         take k (sort_key (\<lambda>t. - fin_val (score t)) (map (scored_of qEmb) its))"
  using comparator_consistent[OF scored_fin[OF assms]] sort_stable_sort_key[OF scored_fin[OF assms]]
  by (simp add: topKByCosine_take js_sort_def)

lemma js_sort_mset:
  assumes "sort_permutes x \<or> finite_scores qEmb its"
  shows "mset (js_sort comparator (sort_impl x) (map (scored_of qEmb) its)) =
         mset (map (scored_of qEmb) its)"
proof (cases "finite_scores qEmb its")
  case True
  show ?thesis
    using comparator_consistent[OF scored_fin[OF True]] sort_stable_sort_key[OF scored_fin[OF True]]
    by (simp add: js_sort_def)
next
  case False
  then have p: "sort_permutes x" using assms by simp
  show ?thesis
  proof (cases "consistent comparator (map (scored_of qEmb) its)")
    case True
    have "mset (foldr (ins_cmp c) xs []) = mset xs" for c :: "ScoredRecord \<Rightarrow> ScoredRecord \<Rightarrow> num" and xs
    proof (induction xs)
      case (Cons y ys)
      have "mset (ins_cmp c y zs) = add_mset y (mset zs)" for zs
        by (induction zs) simp_all
      then show ?case using Cons by simp
    qed simp
    then show ?thesis using True by (simp add: js_sort_def sort_stable_def)
  next
    case False
    then show ?thesis using p by (simp add: js_sort_def sort_permutes_def)
  qed
qed

lemma sorted_desc:
  "sorted_wrt (\<lambda>a b. fin_val (score b) \<le> fin_val (score a)) (sort_key (\<lambda>t. - fin_val (score t)) xs)"
proof -
  have "sorted (map (\<lambda>t. - fin_val (score t)) (sort_key (\<lambda>t. - fin_val (score t)) xs))"
    by (rule sorted_sort_key)
  then show ?thesis by (simp add: sorted_map)
qed

subsection \<open>Scores of the examples\<close>

lemma cosine_1_0: "cosine [Fin 1] [Fin 0] = Fin 0"
proof -
  have "cosine_sums [Fin 1] [Fin 0] = (Fin 0, Fin 1, Fin 0)"
    by (simp add: cosine_sums_def cosine_step_def nth_num_def)
  then show ?thesis by (rule cosine_zero_dot)
qed

lemma cosine_short: "cosine [Fin 1, Fin 0] [Fin 1] = NaN"
proof -
  have "cosine_sums [Fin 1, Fin 0] [Fin 1] = (NaN, Fin 1, NaN)"
    by (simp add: cosine_sums_def cosine_step_def nth_num_def)
  then show ?thesis by (simp add: cosine_def)
qed

lemma cosine_10_10: "cosine [Fin 1, Fin 0] [Fin 1, Fin 0] = Fin (9007199245733792 * pow2 (- 53))"
proof -
  have "cosine_sums [Fin 1, Fin 0] [Fin 1, Fin 0] = (Fin 1, Fin 1, Fin 1)"
    by (simp add: cosine_sums_def cosine_step_def nth_num_def)
  then show ?thesis by (rule cosine_unit_sums)
qed

subsection \<open>Claim about the retriever\<close>

text \<open>
  C4, as amended. For every index, every query embedding and every count \<open>k\<close>:

  \<^item> the retriever returns \<open>min(k, |index|)\<close> records, each a stored record with its score,
    no stored record more often than the index holds it; with \<open>k\<close> at least the size of
    the index it returns every stored record, scored. This holds when every score is
    finite, and for every engine whose sort rearranges the array.
  \<^item> When every score is finite, the result is the first \<open>k\<close> records of the index sorted by
    descending score, records of equal score in the order of the index: the scores
    descend, equal scores may stand next to each other, and no record left out scores
    higher than a returned one.

  A score that is NaN, as of a stored vector shorter than the query, makes the comparator
  inconsistent, and then the order is the engine's.
\<close>

theorem topKByCosine_sorted:
  "(sort_permutes x \<or> finite_scores qEmb its \<longrightarrow>
      length (topKByCosine x its qEmb k) = min k (length its) \<and>
      mset (topKByCosine x its qEmb k) \<subseteq># mset (map (scored_of qEmb) its) \<and>
      (length its \<le> k \<longrightarrow> mset (topKByCosine x its qEmb k) = mset (map (scored_of qEmb) its))) \<and>
   (finite_scores qEmb its \<longrightarrow>
      topKByCosine x its qEmb k =
        take k (sort_key (\<lambda>t. - fin_val (score t)) (map (scored_of qEmb) its)) \<and>
      list_all (\<lambda>t. is_fin (score t)) (topKByCosine x its qEmb k) \<and>
      sorted_wrt (\<lambda>a b. fin_val (score b) \<le> fin_val (score a)) (topKByCosine x its qEmb k) \<and>
      (\<forall>r \<in> set (topKByCosine x its qEmb k).
         \<forall>t \<in># mset (map (scored_of qEmb) its) - mset (topKByCosine x its qEmb k).
           fin_val (score t) \<le> fin_val (score r)))"
proof (intro conjI impI)
  define srt where "srt = js_sort comparator (sort_impl x) (map (scored_of qEmb) its)"
  have tk: "topKByCosine x its qEmb k = take k srt" by (simp add: topKByCosine_take srt_def)
  {
    assume h: "sort_permutes x \<or> finite_scores qEmb its"
    have ms: "mset srt = mset (map (scored_of qEmb) its)" unfolding srt_def by (rule js_sort_mset[OF h])
    then have len: "length srt = length its" by (metis length_map size_mset)
    show "length (topKByCosine x its qEmb k) = min k (length its)"
      by (simp add: tk len min.commute)
    have "mset (take k srt) \<subseteq># mset srt"
      by (metis append_take_drop_id mset_append mset_subset_eq_add_left)
    then show "mset (topKByCosine x its qEmb k) \<subseteq># mset (map (scored_of qEmb) its)"
      by (simp add: tk ms)
    show "mset (topKByCosine x its qEmb k) = mset (map (scored_of qEmb) its)" if "length its \<le> k"
      using that len ms by (simp add: tk)
  }
  {
    assume f: "finite_scores qEmb its"
    define key where "key = (\<lambda>t :: ScoredRecord. - fin_val (score t))"
    define srk where "srk = sort_key key (map (scored_of qEmb) its)"
    have sp: "topKByCosine x its qEmb k = take k srk"
      unfolding srk_def key_def by (rule topKByCosine_spec[OF f])
    show "topKByCosine x its qEmb k =
        take k (sort_key (\<lambda>t. - fin_val (score t)) (map (scored_of qEmb) its))"
      by (rule topKByCosine_spec[OF f])
    have "\<forall>t \<in> set srk. fin_score t" using scored_fin[OF f] by (simp add: srk_def)
    then have "\<forall>t \<in> set (take k srk). is_fin (score t)"
      using set_take_subset[of k srk] by (auto simp: fin_score_def)
    then show "list_all (\<lambda>t. is_fin (score t)) (topKByCosine x its qEmb k)"
      by (simp add: sp list_all_iff)
    have srt: "sorted_wrt (\<lambda>a b. fin_val (score b) \<le> fin_val (score a)) srk"
      unfolding srk_def key_def by (rule sorted_desc)
    then show "sorted_wrt (\<lambda>a b. fin_val (score b) \<le> fin_val (score a)) (topKByCosine x its qEmb k)"
      unfolding sp by (rule sorted_wrt_take)
    have "mset (map (scored_of qEmb) its) = mset (take k srk) + mset (drop k srk)"
      by (metis append_take_drop_id mset_append mset_sort srk_def)
    then have rest: "mset (map (scored_of qEmb) its) - mset (take k srk) = mset (drop k srk)"
      by simp
    have "sorted_wrt (\<lambda>a b. fin_val (score b) \<le> fin_val (score a)) (take k srk @ drop k srk)"
      using srt by simp
    then have "\<forall>r \<in> set (take k srk). \<forall>t \<in> set (drop k srk). fin_val (score t) \<le> fin_val (score r)"
      unfolding sorted_wrt_append by blast
    then show "\<forall>r \<in> set (topKByCosine x its qEmb k).
         \<forall>t \<in># mset (map (scored_of qEmb) its) - mset (topKByCosine x its qEmb k).
           fin_val (score t) \<le> fin_val (score r)"
      by (simp only: sp rest set_mset_mset)
  }
qed

text \<open>
  An index of two records of which the second is the one nearer to the query: asked for
  two records the retriever returns both, the second first; asked for one, the second.
\<close>

theorem topKByCosine_sorted_witness:
  "finite_scores [Fin 1] [\<lparr>id_f = ''file:b::0'', source = ''b'', type_f = File, text_f = ''y'', embedding = [Fin 0]\<rparr>, \<lparr>id_f = ''file:a::0'', source = ''a'', type_f = File, text_f = ''x'', embedding = [Fin 1]\<rparr>] \<and>
   length [\<lparr>id_f = ''file:b::0'', source = ''b'', type_f = File, text_f = ''y'', embedding = [Fin 0]\<rparr>, \<lparr>id_f = ''file:a::0'', source = ''a'', type_f = File, text_f = ''x'', embedding = [Fin 1]\<rparr>] \<le> (2 :: nat) \<and>
   topKByCosine 
      \<lparr>embed_api = \<lambda>ts. Inl ''down'', embedQuery_api = \<lambda>q. Inr [Fin 1], complete_api = \<lambda>q ts. Inr ''ok'', fetchText_api = \<lambda>u. Inl ''down'', sort_impl = \<lambda>xs. xs\<rparr> [\<lparr>id_f = ''file:b::0'', source = ''b'', type_f = File, text_f = ''y'', embedding = [Fin 0]\<rparr>, \<lparr>id_f = ''file:a::0'', source = ''a'', type_f = File, text_f = ''x'', embedding = [Fin 1]\<rparr>] [Fin 1] 2 = [\<lparr>id_f = ''file:a::0'', source = ''a'', type_f = File, text_f = ''x'', embedding = [Fin 1], score = Fin (9007199245733792 * pow2 (- 53))\<rparr>, \<lparr>id_f = ''file:b::0'', source = ''b'', type_f = File, text_f = ''y'', embedding = [Fin 0], score = Fin 0\<rparr>] \<and>
   topKByCosine 
      \<lparr>embed_api = \<lambda>ts. Inl ''down'', embedQuery_api = \<lambda>q. Inr [Fin 1], complete_api = \<lambda>q ts. Inr ''ok'', fetchText_api = \<lambda>u. Inl ''down'', sort_impl = \<lambda>xs. xs\<rparr> [\<lparr>id_f = ''file:b::0'', source = ''b'', type_f = File, text_f = ''y'', embedding = [Fin 0]\<rparr>, \<lparr>id_f = ''file:a::0'', source = ''a'', type_f = File, text_f = ''x'', embedding = [Fin 1]\<rparr>] [Fin 1] 1 = [\<lparr>id_f = ''file:a::0'', source = ''a'', type_f = File, text_f = ''x'', embedding = [Fin 1], score = Fin (9007199245733792 * pow2 (- 53))\<rparr>]"
  using topKByCosine_sorted[of "\<lparr>embed_api = \<lambda>ts. Inl ''down'', embedQuery_api = \<lambda>q. Inr [Fin 1], complete_api = \<lambda>q ts. Inr ''ok'', fetchText_api = \<lambda>u. Inl ''down'', sort_impl = \<lambda>xs. xs\<rparr>" "[Fin 1]" "[\<lparr>id_f = ''file:b::0'', source = ''b'', type_f = File, text_f = ''y'', embedding = [Fin 0]\<rparr>, \<lparr>id_f = ''file:a::0'', source = ''a'', type_f = File, text_f = ''x'', embedding = [Fin 1]\<rparr>]" 2]
    topKByCosine_sorted[of "\<lparr>embed_api = \<lambda>ts. Inl ''down'', embedQuery_api = \<lambda>q. Inr [Fin 1], complete_api = \<lambda>q ts. Inr ''ok'', fetchText_api = \<lambda>u. Inl ''down'', sort_impl = \<lambda>xs. xs\<rparr>" "[Fin 1]" "[\<lparr>id_f = ''file:b::0'', source = ''b'', type_f = File, text_f = ''y'', embedding = [Fin 0]\<rparr>, \<lparr>id_f = ''file:a::0'', source = ''a'', type_f = File, text_f = ''x'', embedding = [Fin 1]\<rparr>]" 1]
  by (simp add: finite_scores_def cosine_unit cosine_1_0 scored_of_def)

text \<open>
  C4 as stated fails in two ways. Two records with the same embedding have the same score,
  so the result is not strictly descending. And against a query of two components a stored
  vector of one component scores NaN; the comparator is then not consistent, and an engine
  that leaves such an array as it is returns the record without a score before the record
  that matches the query.
\<close>

theorem topKByCosine_sorted_counterexample:
  "map score (topKByCosine 
      \<lparr>embed_api = \<lambda>ts. Inl ''down'', embedQuery_api = \<lambda>q. Inr [Fin 1], complete_api = \<lambda>q ts. Inr ''ok'', fetchText_api = \<lambda>u. Inl ''down'', sort_impl = \<lambda>xs. xs\<rparr> [\<lparr>id_f = ''file:a::0'', source = ''a'', type_f = File, text_f = ''x'', embedding = [Fin 1]\<rparr>, \<lparr>id_f = ''file:c::0'', source = ''c'', type_f = File, text_f = ''x'', embedding = [Fin 1]\<rparr>] [Fin 1] 5) =
     [Fin (9007199245733792 * pow2 (- 53)), Fin (9007199245733792 * pow2 (- 53))] \<and>
   map score (topKByCosine 
      \<lparr>embed_api = \<lambda>ts. Inl ''down'', embedQuery_api = \<lambda>q. Inr [Fin 1], complete_api = \<lambda>q ts. Inr ''ok'', fetchText_api = \<lambda>u. Inl ''down'', sort_impl = \<lambda>xs. xs\<rparr> [\<lparr>id_f = ''file:a::0'', source = ''a'', type_f = File, text_f = ''x'', embedding = [Fin 1]\<rparr>, \<lparr>id_f = ''file:d::0'', source = ''d'', type_f = File, text_f = ''z'', embedding = [Fin 1, Fin 0]\<rparr>] [Fin 1, Fin 0] 5) =
     [NaN, Fin (9007199245733792 * pow2 (- 53))]"
proof -
  have "finite_scores [Fin 1] [\<lparr>id_f = ''file:a::0'', source = ''a'', type_f = File, text_f = ''x'', embedding = [Fin 1]\<rparr>, \<lparr>id_f = ''file:c::0'', source = ''c'', type_f = File, text_f = ''x'', embedding = [Fin 1]\<rparr>]"
    by (simp add: finite_scores_def cosine_unit)
  then have "map score (topKByCosine 
      \<lparr>embed_api = \<lambda>ts. Inl ''down'', embedQuery_api = \<lambda>q. Inr [Fin 1], complete_api = \<lambda>q ts. Inr ''ok'', fetchText_api = \<lambda>u. Inl ''down'', sort_impl = \<lambda>xs. xs\<rparr> [\<lparr>id_f = ''file:a::0'', source = ''a'', type_f = File, text_f = ''x'', embedding = [Fin 1]\<rparr>, \<lparr>id_f = ''file:c::0'', source = ''c'', type_f = File, text_f = ''x'', embedding = [Fin 1]\<rparr>] [Fin 1] 5) =
     [Fin (9007199245733792 * pow2 (- 53)), Fin (9007199245733792 * pow2 (- 53))]"
    by (simp add: topKByCosine_spec scored_of_def cosine_unit)
  moreover have "\<not> consistent comparator (map (scored_of [Fin 1, Fin 0]) [\<lparr>id_f = ''file:a::0'', source = ''a'', type_f = File, text_f = ''x'', embedding = [Fin 1]\<rparr>, \<lparr>id_f = ''file:d::0'', source = ''d'', type_f = File, text_f = ''z'', embedding = [Fin 1, Fin 0]\<rparr>])"
    by (auto simp: consistent_def comparator_def fsub_def scored_of_def cosine_short)
  then have "map score (topKByCosine 
      \<lparr>embed_api = \<lambda>ts. Inl ''down'', embedQuery_api = \<lambda>q. Inr [Fin 1], complete_api = \<lambda>q ts. Inr ''ok'', fetchText_api = \<lambda>u. Inl ''down'', sort_impl = \<lambda>xs. xs\<rparr> [\<lparr>id_f = ''file:a::0'', source = ''a'', type_f = File, text_f = ''x'', embedding = [Fin 1]\<rparr>, \<lparr>id_f = ''file:d::0'', source = ''d'', type_f = File, text_f = ''z'', embedding = [Fin 1, Fin 0]\<rparr>] [Fin 1, Fin 0] 5) =
     [NaN, Fin (9007199245733792 * pow2 (- 53))]"
    by (simp add: topKByCosine_take js_sort_def scored_of_def cosine_short cosine_10_10)
  ultimately show ?thesis by simp
qed

section \<open>The confidence gate and the query endpoint\<close>

subsection \<open>The two statistics\<close>

lemma fold_add_score:
  "fold (\<lambda>x s. fadd s (score x)) xs a = fold (\<lambda>v s. fadd s v) (map score xs) a"
  by (induction xs arbitrary: a) simp_all

lemma avgTop3_of_mean:
  assumes "ts \<noteq> []"
  shows "avgTop3_of ts = fmean (map score (take (min 3 (length ts)) ts))"
proof -
  have "take (min 3 (length ts)) ts = take 3 ts" by (simp add: min_def)
  moreover have "max 1 (min 3 (length ts)) = min 3 (length ts)"
    using assms by (cases ts) (simp_all add: min_def)
  ultimately show ?thesis
    by (simp add: avgTop3_of_def fmean_def slice_js_from_0 fold_add_score min.commute)
qed

lemma topSim_of_hd: "ts \<noteq> [] \<Longrightarrow> topSim_of ts = score (hd ts)"
  by (cases ts) (simp_all add: topSim_of_def)

lemma sources_of_Nil_iff: "sources_of ts = [] \<longleftrightarrow> ts = []"
  by (simp add: sources_of_def enumerate_eq_zip)

lemma chat_gate:
  assumes "m \<noteq> []" "items st \<noteq> []" "embedQuery_api x m = Inr qEmb"
  shows "chat cfg x (Some m) st =
     (let st1 = log_call (EmbedQueryCall m) st;
          top_k = topKByCosine x (items st) qEmb 5
      in if flt (topSim_of top_k) (MIN_TOP_SIM cfg) \<or> flt (avgTop3_of top_k) (MIN_AVG_TOP3 cfg)
         then (st1, json refusalMessage)
         else (case complete_api x m top_k of
                 Inl e \<Rightarrow> (log_call (CompleteCall m top_k) st1,
                           status_json 500 (ErrorBody (error_message e)))
               | Inr answer \<Rightarrow> (log_call (CompleteCall m top_k) st1,
                                json (ChatBody answer (sources_of top_k)))))"
  using assms
  by (cases "complete_api x m (topKByCosine x (items st) qEmb 5)")
     (simp_all add: chat_def Let_def log_call_def)

text \<open>With finite scores the first of the records retrieved has the best score of the index.\<close>

lemma rank1_best:
  assumes f: "finite_scores qEmb its" and k: "0 < k" and it: "it \<in> set its"
  shows "fin_val (cosine qEmb (embedding it)) \<le> fin_val (score (hd (topKByCosine x its qEmb k)))"
proof -
  define srk where "srk = sort_key (\<lambda>t. - fin_val (score t)) (map (scored_of qEmb) its)"
  have tk: "topKByCosine x its qEmb k = take k srk"
    unfolding srk_def by (rule topKByCosine_spec[OF f])
  have mem: "scored_of qEmb it \<in> set srk" using it by (simp add: srk_def)
  then obtain h tl where srk: "srk = h # tl" by (cases srk) auto
  have "sorted_wrt (\<lambda>a b. fin_val (score b) \<le> fin_val (score a)) srk"
    unfolding srk_def by (rule sorted_desc)
  then have "\<forall>t \<in> set tl. fin_val (score t) \<le> fin_val (score h)" by (simp add: srk)
  then have "fin_val (score (scored_of qEmb it)) \<le> fin_val (score h)" using mem srk by auto
  moreover have "hd (take k srk) = h" using k by (cases k) (simp_all add: srk)
  ultimately show ?thesis by (simp add: tk scored_of_def)
qed

subsection \<open>The thresholds and the scores of the examples as binary64 values\<close>

lemma dec_078: "rnd (39 / 50) = Fin (7025615418697974 * pow2 (- 53))"
  by (subst rnd_eval_num[of "- 1"]) (simp_all add: pow2_def rne_def Let_def)

lemma dec_072: "rnd (18 / 25) = Fin (6485183463413514 * pow2 (- 53))"
  by (subst rnd_eval_num[of "- 1"]) (simp_all add: pow2_def rne_def Let_def)

lemma dec_09: "rnd (9 / 10) = Fin (8106479329266893 * pow2 (- 53))"
  by (subst rnd_eval_num[of "- 1"]) (simp_all add: pow2_def rne_def Let_def)

lemma dec_08: "rnd (4 / 5) = Fin (7205759403792794 * pow2 (- 53))"
  by (subst rnd_eval_num[of "- 1"]) (simp_all add: pow2_def rne_def Let_def)

lemma dec_075: "rnd (3 / 4) = Fin (3 / 4)"
  by (subst rnd_eval_num[of "- 1"]) (simp_all add: pow2_def rne_def Let_def)

lemma dec_05: "rnd (1 / 2) = Fin (1 / 2)"
  by (subst rnd_eval_num[of "- 1"]) (simp_all add: pow2_def rne_def Let_def)

lemma sum_09: "rnd (8106479329266893 * pow2 (- 53)) = Fin (8106479329266893 * pow2 (- 53))"
  by (rule rnd_exact[of _ 8106479329266893 "- 53"]) simp_all

lemma sum_09_08:
  "rnd (8106479329266893 * pow2 (- 53) + 7205759403792794 * pow2 (- 53)) =
   Fin (7656119366529844 * pow2 (- 52))"
  by (subst rnd_eval_num[of 0]) (simp_all add: pow2_def rne_def Let_def)

lemma sum_09_08_075:
  "rnd (7656119366529844 * pow2 (- 52) + 3 / 4) = Fin (5516909543528858 * pow2 (- 51))"
  by (subst rnd_eval_num[of 1]) (simp_all add: pow2_def rne_def Let_def)

lemma mean_09_08_075:
  "rnd (5516909543528858 * pow2 (- 51) / 3) = Fin (7355879391371811 * pow2 (- 53))"
  by (subst rnd_eval_num[of "- 1"]) (simp_all add: pow2_def rne_def Let_def)

lemma fmean_pass:
  "fmean [rnd (9 / 10), rnd (8 / 10), rnd (75 / 100)] = Fin (7355879391371811 * pow2 (- 53))"
proof -
  have "fmean [rnd (9 / 10), rnd (8 / 10), rnd (75 / 100)] =
        fdiv (fadd (fadd (fadd (Fin 0) (Fin (8106479329266893 * pow2 (- 53))))
                (Fin (7205759403792794 * pow2 (- 53)))) (Fin (3 / 4))) (Fin 3)"
    by (simp add: fmean_def dec_09 dec_08 dec_075)
  also have "\<dots> = fdiv (fadd (fadd (Fin (8106479329266893 * pow2 (- 53)))
                (Fin (7205759403792794 * pow2 (- 53)))) (Fin (3 / 4))) (Fin 3)"
    by (simp add: sum_09)
  also have "\<dots> = fdiv (fadd (Fin (7656119366529844 * pow2 (- 52))) (Fin (3 / 4))) (Fin 3)"
    by (simp only: fadd.simps sum_09_08)
  also have "\<dots> = fdiv (Fin (5516909543528858 * pow2 (- 51))) (Fin 3)"
    by (simp only: fadd.simps sum_09_08_075)
  also have "\<dots> = rnd (5516909543528858 * pow2 (- 51) / 3)" by simp
  finally show ?thesis by (simp only: mean_09_08_075)
qed

lemma cosine_1_m1: "cosine [Fin 1] [Fin (- 1)] = Fin (- (9007199245733792 * pow2 (- 53)))"
proof -
  have s: "cosine_sums [Fin 1] [Fin (- 1)] = (Fin (- 1), Fin 1, Fin 1)"
    by (simp add: cosine_sums_def cosine_step_def nth_num_def rnd_minus)
  have "cosine [Fin 1] [Fin (- 1)] = fdiv (Fin (- 1)) (fadd (Fin 1) (rnd (1 / 1000000000)))"
    by (simp add: cosine_def s)
  also have "\<dots> = fdiv (Fin (- 1)) (rnd (1 + 4835703278458517 * pow2 (- 82)))"
    by (simp only: eps_lit fadd.simps)
  also have "\<dots> = fdiv (Fin (- 1)) (Fin (1 + 4503600 * pow2 (- 52)))"
    by (simp only: one_plus_eps)
  also have "\<dots> = rnd (- (1 / (1 + 4503600 * pow2 (- 52))))"
    by (simp add: pow2_def)
  also have "\<dots> = fneg (rnd (1 / (1 + 4503600 * pow2 (- 52))))" by (rule rnd_minus)
  finally show ?thesis by (simp only: inv_one_plus_eps fneg.simps)
qed

lemma score_exact: "rnd (9007199245733792 * pow2 (- 53)) = Fin (9007199245733792 * pow2 (- 53))"
  by (rule rnd_exact[of _ 9007199245733792 "- 53"]) simp_all

lemma example_scores:
  "finite_scores [Fin 1]
     [\<lparr>id_f = ''file:b::0'', source = ''b'', type_f = File, text_f = ''y'', embedding = [Fin 0]\<rparr>,
      \<lparr>id_f = ''file:a::0'', source = ''a'', type_f = File, text_f = ''x'', embedding = [Fin 1]\<rparr>,
      \<lparr>id_f = ''file:c::0'', source = ''c'', type_f = File, text_f = ''z'', embedding = [Fin (- 1)]\<rparr>]"
  by (simp add: finite_scores_def cosine_unit cosine_1_0 cosine_1_m1)

lemma example_top:
  "topKByCosine x
     [\<lparr>id_f = ''file:b::0'', source = ''b'', type_f = File, text_f = ''y'', embedding = [Fin 0]\<rparr>,
      \<lparr>id_f = ''file:a::0'', source = ''a'', type_f = File, text_f = ''x'', embedding = [Fin 1]\<rparr>,
      \<lparr>id_f = ''file:c::0'', source = ''c'', type_f = File, text_f = ''z'', embedding = [Fin (- 1)]\<rparr>] [Fin 1] 5 =
     [\<lparr>id_f = ''file:a::0'', source = ''a'', type_f = File, text_f = ''x'', embedding = [Fin 1], score = Fin (9007199245733792 * pow2 (- 53))\<rparr>,
      \<lparr>id_f = ''file:b::0'', source = ''b'', type_f = File, text_f = ''y'', embedding = [Fin 0], score = Fin 0\<rparr>,
      \<lparr>id_f = ''file:c::0'', source = ''c'', type_f = File, text_f = ''z'', embedding = [Fin (- 1)], score = Fin (- (9007199245733792 * pow2 (- 53)))\<rparr>]"
  by (simp add: topKByCosine_spec[OF example_scores] scored_of_def cosine_unit cosine_1_0 cosine_1_m1)

lemma example_avg:
  "avgTop3_of
     [\<lparr>id_f = ''file:a::0'', source = ''a'', type_f = File, text_f = ''x'', embedding = [Fin 1], score = Fin (9007199245733792 * pow2 (- 53))\<rparr>,
      \<lparr>id_f = ''file:b::0'', source = ''b'', type_f = File, text_f = ''y'', embedding = [Fin 0], score = Fin 0\<rparr>,
      \<lparr>id_f = ''file:c::0'', source = ''c'', type_f = File, text_f = ''z'', embedding = [Fin (- 1)], score = Fin (- (9007199245733792 * pow2 (- 53)))\<rparr>] = Fin 0"
  by (simp add: avgTop3_of_def slice_js_def score_exact)

subsection \<open>Claim about the gate\<close>

text \<open>
  C1. Take a request with a message, on an index that is not empty, for which the embedding
  service returns the query embedding \<open>qEmb\<close>, and let \<open>top_k\<close> be what the retriever returns
  for \<open>qEmb\<close> and \<open>k = 5\<close>, with at least one scored record in it. Then

  \<^item> \<open>topSim\<close> is the score of the first record of \<open>top_k\<close>, and \<open>avgTop3\<close> is the mean of the
    scores of its first \<open>min(3, k)\<close> records, in binary64 arithmetic;
  \<^item> the response is the fixed refusal, whose list of sources is empty, exactly when
    \<open>topSim < MIN_TOP_SIM\<close> or \<open>avgTop3 < MIN_AVG_TOP3\<close>, and then the completion service is
    not called; otherwise the completion service is called with the message and \<open>top_k\<close>,
    and its answer is returned with the sources;
  \<^item> when every score is finite, \<open>top_k\<close> is the first five records of the index sorted by
    descending score, so the first record is of rank 1: no record of the index has a higher
    score;
  \<^item> the default thresholds are the binary64 values of 0.78 and 0.72; with them the scores
    0.9, 0.8, 0.75 pass the gate and the scores 0.5, 0.4, 0.3 do not.
\<close>

theorem confidence_gate:
  assumes "m \<noteq> []" and "items st \<noteq> []" and "embedQuery_api x m = Inr qEmb"
    and "top_k = topKByCosine x (items st) qEmb 5" and "top_k \<noteq> []"
  shows "topSim_of top_k = score (hd top_k) \<and>
     avgTop3_of top_k = fmean (map score (take (min 3 (length top_k)) top_k)) \<and>
     (snd (chat cfg x (Some m) st) = json refusalMessage \<longleftrightarrow>
        flt (topSim_of top_k) (MIN_TOP_SIM cfg) \<or> flt (avgTop3_of top_k) (MIN_AVG_TOP3 cfg)) \<and>
     refusalMessage = ChatBody refusal_answer [] \<and>
     (flt (topSim_of top_k) (MIN_TOP_SIM cfg) \<or> flt (avgTop3_of top_k) (MIN_AVG_TOP3 cfg) \<longrightarrow>
        calls (fst (chat cfg x (Some m) st)) = calls st @ [EmbedQueryCall m]) \<and>
     (\<not> (flt (topSim_of top_k) (MIN_TOP_SIM cfg) \<or> flt (avgTop3_of top_k) (MIN_AVG_TOP3 cfg)) \<longrightarrow>
        calls (fst (chat cfg x (Some m) st)) = calls st @ [EmbedQueryCall m, CompleteCall m top_k] \<and>
        (\<forall>answer. complete_api x m top_k = Inr answer \<longrightarrow>
           snd (chat cfg x (Some m) st) = json (ChatBody answer (sources_of top_k)))) \<and>
     (finite_scores qEmb (items st) \<longrightarrow>
        top_k = take 5 (sort_key (\<lambda>t. - fin_val (score t)) (map (scored_of qEmb) (items st))) \<and>
        (\<forall>it \<in> set (items st).
           fin_val (cosine qEmb (embedding it)) \<le> fin_val (score (hd top_k)))) \<and>
     MIN_TOP_SIM (default_config tok) = rnd (78 / 100) \<and>
     MIN_AVG_TOP3 (default_config tok) = rnd (72 / 100) \<and>
     (\<forall>ts. map score ts = [rnd (9 / 10), rnd (8 / 10), rnd (75 / 100)] \<longrightarrow>
        \<not> (flt (topSim_of ts) (MIN_TOP_SIM (default_config tok)) \<or>
           flt (avgTop3_of ts) (MIN_AVG_TOP3 (default_config tok)))) \<and>
     (\<forall>ts. map score ts = [rnd (5 / 10), rnd (4 / 10), rnd (3 / 10)] \<longrightarrow>
        flt (topSim_of ts) (MIN_TOP_SIM (default_config tok)) \<or>
        flt (avgTop3_of ts) (MIN_AVG_TOP3 (default_config tok)))"
proof -
  note ne = assms(5)
  have src: "sources_of top_k \<noteq> []" using ne by (simp add: sources_of_Nil_iff)
  note run = chat_gate[OF assms(1-3), of cfg, folded assms(4)]
  let ?refuse = "flt (topSim_of top_k) (MIN_TOP_SIM cfg) \<or> flt (avgTop3_of top_k) (MIN_AVG_TOP3 cfg)"
  have r0: "refusalMessage = ChatBody refusal_answer []" by (simp add: refusalMessage_def)
  have r1: "snd (chat cfg x (Some m) st) = json refusalMessage \<longleftrightarrow> ?refuse"
    using src by (cases "complete_api x m top_k")
      (auto simp: run Let_def json_def status_json_def refusalMessage_def)
  have r2: "?refuse \<longrightarrow> calls (fst (chat cfg x (Some m) st)) = calls st @ [EmbedQueryCall m]"
    by (auto simp: run Let_def log_call_def)
  have r3: "\<not> ?refuse \<longrightarrow>
        calls (fst (chat cfg x (Some m) st)) = calls st @ [EmbedQueryCall m, CompleteCall m top_k] \<and>
        (\<forall>answer. complete_api x m top_k = Inr answer \<longrightarrow>
           snd (chat cfg x (Some m) st) = json (ChatBody answer (sources_of top_k)))"
    by (cases "complete_api x m top_k") (auto simp: run Let_def log_call_def)
  have r4: "top_k = take 5 (sort_key (\<lambda>t. - fin_val (score t)) (map (scored_of qEmb) (items st))) \<and>
        (\<forall>it \<in> set (items st).
           fin_val (cosine qEmb (embedding it)) \<le> fin_val (score (hd top_k)))"
    if f: "finite_scores qEmb (items st)"
    using topKByCosine_spec[OF f, of x 5] rank1_best[OF f, of 5 _ x]
    by (simp add: assms(4))
  have d1: "MIN_TOP_SIM (default_config tok) = rnd (78 / 100)"
    and d2: "MIN_AVG_TOP3 (default_config tok) = rnd (72 / 100)"
    by (simp_all add: default_config_def)
  have e1: "\<not> (flt (topSim_of ts) (MIN_TOP_SIM (default_config tok)) \<or>
           flt (avgTop3_of ts) (MIN_AVG_TOP3 (default_config tok)))"
    if "map score ts = [rnd (9 / 10), rnd (8 / 10), rnd (75 / 100)]" for ts
  proof -
    have ts: "ts \<noteq> []" "length ts = 3" using that by (auto simp: map_eq_Cons_conv)
    have "score (hd ts) = rnd (9 / 10)" using that by (auto simp: map_eq_Cons_conv)
    then have "topSim_of ts = Fin (8106479329266893 * pow2 (- 53))"
      using topSim_of_hd[OF ts(1)] by (simp add: dec_09)
    moreover have "avgTop3_of ts = Fin (7355879391371811 * pow2 (- 53))"
      using avgTop3_of_mean[OF ts(1)] that by (simp only: ts(2) min.idem take_all order_refl fmean_pass)
    ultimately show ?thesis
      by (simp add: d1 d2 dec_078 dec_072)
  qed
  have e2: "flt (topSim_of ts) (MIN_TOP_SIM (default_config tok)) \<or>
        flt (avgTop3_of ts) (MIN_AVG_TOP3 (default_config tok))"
    if "map score ts = [rnd (5 / 10), rnd (4 / 10), rnd (3 / 10)]" for ts
  proof -
    have ts: "ts \<noteq> []" using that by auto
    have "score (hd ts) = rnd (5 / 10)" using that by (auto simp: map_eq_Cons_conv)
    then have "topSim_of ts = Fin (1 / 2)"
      using topSim_of_hd[OF ts] by (simp add: dec_05)
    then show ?thesis by (simp add: d1 dec_078 pow2_def)
  qed
  from topSim_of_hd[OF ne] avgTop3_of_mean[OF ne] r0 r1 r2 r3 r4 d1 d2 e1 e2 show ?thesis by blast
qed


text \<open>
  An index of three records, the second of which has the embedding of the query and the
  third the opposite one. The retriever puts the second record first; \<open>topSim\<close> is its
  score, above the threshold, but the three scores cancel, \<open>avgTop3\<close> is zero, and the
  request is refused without a call of the completion service. The two lists of scores
  of the claim are taken at records that carry them.
\<close>

theorem confidence_gate_witness:
  "''hi'' \<noteq> [] \<and>
   items \<lparr>items =
     [\<lparr>id_f = ''file:b::0'', source = ''b'', type_f = File, text_f = ''y'', embedding = [Fin 0]\<rparr>,
      \<lparr>id_f = ''file:a::0'', source = ''a'', type_f = File, text_f = ''x'', embedding = [Fin 1]\<rparr>,
      \<lparr>id_f = ''file:c::0'', source = ''c'', type_f = File, text_f = ''z'', embedding = [Fin (- 1)]\<rparr>],
      disk = [], calls = []\<rparr> \<noteq> [] \<and>
   embedQuery_api \<lparr>embed_api = \<lambda>ts. Inl ''down'', embedQuery_api = \<lambda>q. Inr [Fin 1],
      complete_api = \<lambda>q ts. Inr ''ok'', fetchText_api = \<lambda>u. Inl ''down'', sort_impl = \<lambda>xs. xs\<rparr> ''hi'' = Inr [Fin 1] \<and>
   finite_scores [Fin 1] (items \<lparr>items =
     [\<lparr>id_f = ''file:b::0'', source = ''b'', type_f = File, text_f = ''y'', embedding = [Fin 0]\<rparr>,
      \<lparr>id_f = ''file:a::0'', source = ''a'', type_f = File, text_f = ''x'', embedding = [Fin 1]\<rparr>,
      \<lparr>id_f = ''file:c::0'', source = ''c'', type_f = File, text_f = ''z'', embedding = [Fin (- 1)]\<rparr>],
      disk = [], calls = []\<rparr>) \<and>
   topKByCosine \<lparr>embed_api = \<lambda>ts. Inl ''down'', embedQuery_api = \<lambda>q. Inr [Fin 1],
      complete_api = \<lambda>q ts. Inr ''ok'', fetchText_api = \<lambda>u. Inl ''down'', sort_impl = \<lambda>xs. xs\<rparr> (items \<lparr>items =
     [\<lparr>id_f = ''file:b::0'', source = ''b'', type_f = File, text_f = ''y'', embedding = [Fin 0]\<rparr>,
      \<lparr>id_f = ''file:a::0'', source = ''a'', type_f = File, text_f = ''x'', embedding = [Fin 1]\<rparr>,
      \<lparr>id_f = ''file:c::0'', source = ''c'', type_f = File, text_f = ''z'', embedding = [Fin (- 1)]\<rparr>],
      disk = [], calls = []\<rparr>) [Fin 1] 5 =
     [\<lparr>id_f = ''file:a::0'', source = ''a'', type_f = File, text_f = ''x'', embedding = [Fin 1], score = Fin (9007199245733792 * pow2 (- 53))\<rparr>,
      \<lparr>id_f = ''file:b::0'', source = ''b'', type_f = File, text_f = ''y'', embedding = [Fin 0], score = Fin 0\<rparr>,
      \<lparr>id_f = ''file:c::0'', source = ''c'', type_f = File, text_f = ''z'', embedding = [Fin (- 1)], score = Fin (- (9007199245733792 * pow2 (- 53)))\<rparr>] \<and>
   topSim_of [\<lparr>id_f = ''file:a::0'', source = ''a'', type_f = File, text_f = ''x'', embedding = [Fin 1], score = Fin (9007199245733792 * pow2 (- 53))\<rparr>,
      \<lparr>id_f = ''file:b::0'', source = ''b'', type_f = File, text_f = ''y'', embedding = [Fin 0], score = Fin 0\<rparr>,
      \<lparr>id_f = ''file:c::0'', source = ''c'', type_f = File, text_f = ''z'', embedding = [Fin (- 1)], score = Fin (- (9007199245733792 * pow2 (- 53)))\<rparr>] = Fin (9007199245733792 * pow2 (- 53)) \<and>
   avgTop3_of [\<lparr>id_f = ''file:a::0'', source = ''a'', type_f = File, text_f = ''x'', embedding = [Fin 1], score = Fin (9007199245733792 * pow2 (- 53))\<rparr>,
      \<lparr>id_f = ''file:b::0'', source = ''b'', type_f = File, text_f = ''y'', embedding = [Fin 0], score = Fin 0\<rparr>,
      \<lparr>id_f = ''file:c::0'', source = ''c'', type_f = File, text_f = ''z'', embedding = [Fin (- 1)], score = Fin (- (9007199245733792 * pow2 (- 53)))\<rparr>] = Fin 0 \<and>
   snd (chat (default_config ''s3cret'') \<lparr>embed_api = \<lambda>ts. Inl ''down'', embedQuery_api = \<lambda>q. Inr [Fin 1],
      complete_api = \<lambda>q ts. Inr ''ok'', fetchText_api = \<lambda>u. Inl ''down'', sort_impl = \<lambda>xs. xs\<rparr> (Some ''hi'') \<lparr>items =
     [\<lparr>id_f = ''file:b::0'', source = ''b'', type_f = File, text_f = ''y'', embedding = [Fin 0]\<rparr>,
      \<lparr>id_f = ''file:a::0'', source = ''a'', type_f = File, text_f = ''x'', embedding = [Fin 1]\<rparr>,
      \<lparr>id_f = ''file:c::0'', source = ''c'', type_f = File, text_f = ''z'', embedding = [Fin (- 1)]\<rparr>],
      disk = [], calls = []\<rparr>) = json refusalMessage \<and>
   calls (fst (chat (default_config ''s3cret'') \<lparr>embed_api = \<lambda>ts. Inl ''down'', embedQuery_api = \<lambda>q. Inr [Fin 1],
      complete_api = \<lambda>q ts. Inr ''ok'', fetchText_api = \<lambda>u. Inl ''down'', sort_impl = \<lambda>xs. xs\<rparr> (Some ''hi'') \<lparr>items =
     [\<lparr>id_f = ''file:b::0'', source = ''b'', type_f = File, text_f = ''y'', embedding = [Fin 0]\<rparr>,
      \<lparr>id_f = ''file:a::0'', source = ''a'', type_f = File, text_f = ''x'', embedding = [Fin 1]\<rparr>,
      \<lparr>id_f = ''file:c::0'', source = ''c'', type_f = File, text_f = ''z'', embedding = [Fin (- 1)]\<rparr>],
      disk = [], calls = []\<rparr>)) = [EmbedQueryCall ''hi''] \<and>
   map score [\<lparr>id_f = ''file:a::0'', source = ''a'', type_f = File, text_f = ''x'', embedding = [], score = rnd (9 / 10)\<rparr>,
      \<lparr>id_f = ''file:a::1'', source = ''a'', type_f = File, text_f = ''y'', embedding = [], score = rnd (8 / 10)\<rparr>,
      \<lparr>id_f = ''file:a::2'', source = ''a'', type_f = File, text_f = ''z'', embedding = [], score = rnd (75 / 100)\<rparr>] = [rnd (9 / 10), rnd (8 / 10), rnd (75 / 100)] \<and>
   \<not> (flt (topSim_of [\<lparr>id_f = ''file:a::0'', source = ''a'', type_f = File, text_f = ''x'', embedding = [], score = rnd (9 / 10)\<rparr>,
      \<lparr>id_f = ''file:a::1'', source = ''a'', type_f = File, text_f = ''y'', embedding = [], score = rnd (8 / 10)\<rparr>,
      \<lparr>id_f = ''file:a::2'', source = ''a'', type_f = File, text_f = ''z'', embedding = [], score = rnd (75 / 100)\<rparr>]) (MIN_TOP_SIM (default_config ''s3cret'')) \<or>
      flt (avgTop3_of [\<lparr>id_f = ''file:a::0'', source = ''a'', type_f = File, text_f = ''x'', embedding = [], score = rnd (9 / 10)\<rparr>,
      \<lparr>id_f = ''file:a::1'', source = ''a'', type_f = File, text_f = ''y'', embedding = [], score = rnd (8 / 10)\<rparr>,
      \<lparr>id_f = ''file:a::2'', source = ''a'', type_f = File, text_f = ''z'', embedding = [], score = rnd (75 / 100)\<rparr>]) (MIN_AVG_TOP3 (default_config ''s3cret''))) \<and>
   map score [\<lparr>id_f = ''file:a::0'', source = ''a'', type_f = File, text_f = ''x'', embedding = [], score = rnd (5 / 10)\<rparr>,
      \<lparr>id_f = ''file:a::1'', source = ''a'', type_f = File, text_f = ''y'', embedding = [], score = rnd (4 / 10)\<rparr>,
      \<lparr>id_f = ''file:a::2'', source = ''a'', type_f = File, text_f = ''z'', embedding = [], score = rnd (3 / 10)\<rparr>] = [rnd (5 / 10), rnd (4 / 10), rnd (3 / 10)] \<and>
   (flt (topSim_of [\<lparr>id_f = ''file:a::0'', source = ''a'', type_f = File, text_f = ''x'', embedding = [], score = rnd (5 / 10)\<rparr>,
      \<lparr>id_f = ''file:a::1'', source = ''a'', type_f = File, text_f = ''y'', embedding = [], score = rnd (4 / 10)\<rparr>,
      \<lparr>id_f = ''file:a::2'', source = ''a'', type_f = File, text_f = ''z'', embedding = [], score = rnd (3 / 10)\<rparr>]) (MIN_TOP_SIM (default_config ''s3cret'')) \<or>
    flt (avgTop3_of [\<lparr>id_f = ''file:a::0'', source = ''a'', type_f = File, text_f = ''x'', embedding = [], score = rnd (5 / 10)\<rparr>,
      \<lparr>id_f = ''file:a::1'', source = ''a'', type_f = File, text_f = ''y'', embedding = [], score = rnd (4 / 10)\<rparr>,
      \<lparr>id_f = ''file:a::2'', source = ''a'', type_f = File, text_f = ''z'', embedding = [], score = rnd (3 / 10)\<rparr>]) (MIN_AVG_TOP3 (default_config ''s3cret'')))"
proof -
  let ?st = "\<lparr>items =
     [\<lparr>id_f = ''file:b::0'', source = ''b'', type_f = File, text_f = ''y'', embedding = [Fin 0]\<rparr>,
      \<lparr>id_f = ''file:a::0'', source = ''a'', type_f = File, text_f = ''x'', embedding = [Fin 1]\<rparr>,
      \<lparr>id_f = ''file:c::0'', source = ''c'', type_f = File, text_f = ''z'', embedding = [Fin (- 1)]\<rparr>],
      disk = [], calls = []\<rparr>"
  let ?x = "\<lparr>embed_api = \<lambda>ts. Inl ''down'', embedQuery_api = \<lambda>q. Inr [Fin 1],
      complete_api = \<lambda>q ts. Inr ''ok'', fetchText_api = \<lambda>u. Inl ''down'', sort_impl = \<lambda>xs. xs\<rparr>"
  let ?top = "[\<lparr>id_f = ''file:a::0'', source = ''a'', type_f = File, text_f = ''x'', embedding = [Fin 1], score = Fin (9007199245733792 * pow2 (- 53))\<rparr>,
      \<lparr>id_f = ''file:b::0'', source = ''b'', type_f = File, text_f = ''y'', embedding = [Fin 0], score = Fin 0\<rparr>,
      \<lparr>id_f = ''file:c::0'', source = ''c'', type_f = File, text_f = ''z'', embedding = [Fin (- 1)], score = Fin (- (9007199245733792 * pow2 (- 53)))\<rparr>]"
  let ?t1 = "[\<lparr>id_f = ''file:a::0'', source = ''a'', type_f = File, text_f = ''x'', embedding = [], score = rnd (9 / 10)\<rparr>,
      \<lparr>id_f = ''file:a::1'', source = ''a'', type_f = File, text_f = ''y'', embedding = [], score = rnd (8 / 10)\<rparr>,
      \<lparr>id_f = ''file:a::2'', source = ''a'', type_f = File, text_f = ''z'', embedding = [], score = rnd (75 / 100)\<rparr>]"
  let ?t2 = "[\<lparr>id_f = ''file:a::0'', source = ''a'', type_f = File, text_f = ''x'', embedding = [], score = rnd (5 / 10)\<rparr>,
      \<lparr>id_f = ''file:a::1'', source = ''a'', type_f = File, text_f = ''y'', embedding = [], score = rnd (4 / 10)\<rparr>,
      \<lparr>id_f = ''file:a::2'', source = ''a'', type_f = File, text_f = ''z'', embedding = [], score = rnd (3 / 10)\<rparr>]"
  let ?cfg = "default_config ''s3cret''"
  have h1: "''hi'' \<noteq> []" by simp
  have h2: "items ?st \<noteq> []" by simp
  have h3: "embedQuery_api ?x ''hi'' = Inr [Fin 1]" by simp
  have top: "topKByCosine ?x (items ?st) [Fin 1] 5 = ?top"
    by (simp add: example_top)
  have h5: "?top \<noteq> []" by simp
  have fin: "finite_scores [Fin 1] (items ?st)"
    using example_scores by simp
  have sim: "topSim_of ?top = Fin (9007199245733792 * pow2 (- 53))"
    by (simp add: topSim_of_def)
  note avg = example_avg
  have "flt (Fin 0) (MIN_AVG_TOP3 ?cfg)"
    by (simp add: default_config_def dec_072)
  then have low: "flt (topSim_of ?top) (MIN_TOP_SIM ?cfg) \<or> flt (avgTop3_of ?top) (MIN_AVG_TOP3 ?cfg)"
    by (simp only: avg simp_thms)
  note g = confidence_gate[of "''hi''" ?st ?x "[Fin 1]" ?top ?cfg "''s3cret''",
      OF h1 h2 h3 top[symmetric] h5]
  note g3 = g[THEN conjunct2, THEN conjunct2, THEN conjunct1]
  note g5 = g[THEN conjunct2, THEN conjunct2, THEN conjunct2, THEN conjunct2, THEN conjunct1]
  note g10 = g[THEN conjunct2, THEN conjunct2, THEN conjunct2, THEN conjunct2, THEN conjunct2,
      THEN conjunct2, THEN conjunct2, THEN conjunct2, THEN conjunct2, THEN conjunct1]
  note g11 = g[THEN conjunct2, THEN conjunct2, THEN conjunct2, THEN conjunct2, THEN conjunct2,
      THEN conjunct2, THEN conjunct2, THEN conjunct2, THEN conjunct2, THEN conjunct2]
  have ref: "snd (chat ?cfg ?x (Some ''hi'') ?st) = json refusalMessage"
    using g3 low by (rule iffD2)
  have "calls (fst (chat ?cfg ?x (Some ''hi'') ?st)) = calls ?st @ [EmbedQueryCall ''hi'']"
    using g5 low by (rule mp)
  moreover have "calls ?st = []" by simp
  ultimately have tr: "calls (fst (chat ?cfg ?x (Some ''hi'') ?st)) = [EmbedQueryCall ''hi'']"
    by (simp only: append_Nil)
  have s1: "map score ?t1 = [rnd (9 / 10), rnd (8 / 10), rnd (75 / 100)]"
    by simp
  have s2: "map score ?t2 = [rnd (5 / 10), rnd (4 / 10), rnd (3 / 10)]"
    by simp
  have p1: "\<not> (flt (topSim_of ?t1) (MIN_TOP_SIM ?cfg) \<or> flt (avgTop3_of ?t1) (MIN_AVG_TOP3 ?cfg))"
    using g10[THEN spec, of ?t1] s1 by (rule mp)
  have p2: "flt (topSim_of ?t2) (MIN_TOP_SIM ?cfg) \<or> flt (avgTop3_of ?t2) (MIN_AVG_TOP3 ?cfg)"
    using g11[THEN spec, of ?t2] s2 by (rule mp)
  show ?thesis
    by (intro conjI) (rule h1 h2 h3 top fin sim avg ref tr s1 p1 s2 p2)+
qed

text \<open>
  C10. On an empty index a request with a message is answered with HTTP 400 and an error
  message; the state is returned as it was, so no external service is called and the index
  is unchanged.
\<close>

theorem chat_empty_index:
  assumes "items st = []" and "m \<noteq> []"
  shows "chat cfg x (Some m) st =
           (st, status_json 400 (ErrorBody ''No index found. Use admin panel to add resources.'')) \<and>
         status (snd (chat cfg x (Some m) st)) = 400 \<and>
         calls (fst (chat cfg x (Some m) st)) = calls st \<and>
         items (fst (chat cfg x (Some m) st)) = items st"
  using assms by (simp add: chat_def status_json_def)

text \<open>The empty server.\<close>

theorem chat_empty_index_witness:
  "items \<lparr>items = [], disk = [], calls = []\<rparr> = [] \<and> ''hi'' \<noteq> [] \<and>
   chat (default_config ''s3cret'')
     \<lparr>embed_api = \<lambda>ts. Inl ''down'', embedQuery_api = \<lambda>q. Inr [Fin 1],
      complete_api = \<lambda>q ts. Inr ''ok'', fetchText_api = \<lambda>u. Inl ''down'', sort_impl = \<lambda>xs. xs\<rparr>
     (Some ''hi'') \<lparr>items = [], disk = [], calls = []\<rparr> =
   (\<lparr>items = [], disk = [], calls = []\<rparr>,
    status_json 400 (ErrorBody ''No index found. Use admin panel to add resources.''))"
  using chat_empty_index[of "\<lparr>items = [], disk = [], calls = []\<rparr>" "''hi''"
      "default_config ''s3cret''"
      "\<lparr>embed_api = \<lambda>ts. Inl ''down'', embedQuery_api = \<lambda>q. Inr [Fin 1],
      complete_api = \<lambda>q ts. Inr ''ok'', fetchText_api = \<lambda>u. Inl ''down'', sort_impl = \<lambda>xs. xs\<rparr>"]
  by simp

section \<open>Deleting a source\<close>

lemma length_filter_removed:
  "int (length xs) - int (length (filter (\<lambda>x. \<not> P x) xs)) = int (length (filter P xs))"
  using sum_length_filter_compl[of P xs] by linarith

text \<open>
  C7, as amended. For every index and every source value that is not empty, the endpoint
  keeps exactly the records whose source differs from the value, in their order, writes the
  index to disk, and returns the number of records whose source equals the value. An empty
  or a missing source value is rejected with HTTP 400 and the state is unchanged.
\<close>

theorem delete_source_filter:
  assumes "src \<noteq> []"
  shows "items (fst (delete_source (Some src) st)) = filter (\<lambda>it. source it \<noteq> src) (items st) \<and>
         disk (fst (delete_source (Some src) st)) = filter (\<lambda>it. source it \<noteq> src) (items st) \<and>
         calls (fst (delete_source (Some src) st)) = calls st \<and>
         snd (delete_source (Some src) st) =
           json (RemovedBody (int (length (filter (\<lambda>it. source it = src) (items st))))) \<and>
         delete_source (Some []) st = (st, status_json 400 (ErrorBody ''source query required'')) \<and>
         delete_source None st = (st, status_json 400 (ErrorBody ''source query required''))"
  using assms length_filter_removed[of "items st" "\<lambda>it. source it = src"]
  by (simp add: delete_source_def Let_def saveIndex_def)

text \<open>Deleting one of two sources.\<close>

theorem delete_source_filter_witness:
  "''a'' \<noteq> [] \<and>
   items (fst (delete_source (Some ''a'')
     \<lparr>items = [\<lparr>id_f = ''file:a::0'', source = ''a'', type_f = File, text_f = ''x'', embedding = [Fin 1]\<rparr>,
               \<lparr>id_f = ''file:b::0'', source = ''b'', type_f = File, text_f = ''y'', embedding = [Fin 0]\<rparr>],
      disk = [], calls = []\<rparr>)) =
     [\<lparr>id_f = ''file:b::0'', source = ''b'', type_f = File, text_f = ''y'', embedding = [Fin 0]\<rparr>] \<and>
   snd (delete_source (Some ''a'')
     \<lparr>items = [\<lparr>id_f = ''file:a::0'', source = ''a'', type_f = File, text_f = ''x'', embedding = [Fin 1]\<rparr>,
               \<lparr>id_f = ''file:b::0'', source = ''b'', type_f = File, text_f = ''y'', embedding = [Fin 0]\<rparr>],
      disk = [], calls = []\<rparr>) = json (RemovedBody 1)"
  using delete_source_filter[of "''a''"
     "\<lparr>items = [\<lparr>id_f = ''file:a::0'', source = ''a'', type_f = File, text_f = ''x'', embedding = [Fin 1]\<rparr>,
               \<lparr>id_f = ''file:b::0'', source = ''b'', type_f = File, text_f = ''y'', embedding = [Fin 0]\<rparr>],
      disk = [], calls = []\<rparr>"]
  by simp

text \<open>
  C7 as stated fails at the empty source value: the response is HTTP 400 with an error
  message, not the count of removed records.
\<close>

theorem delete_source_filter_counterexample:
  "delete_source (Some [])
     \<lparr>items = [\<lparr>id_f = ''file:a::0'', source = ''a'', type_f = File, text_f = ''x'', embedding = [Fin 1]\<rparr>],
      disk = [], calls = []\<rparr> =
   (\<lparr>items = [\<lparr>id_f = ''file:a::0'', source = ''a'', type_f = File, text_f = ''x'', embedding = [Fin 1]\<rparr>],
      disk = [], calls = []\<rparr>,
    \<lparr>status = 400, payload = ErrorBody ''source query required''\<rparr>)"
  by (simp add: delete_source_def status_json_def)

section \<open>Record identifiers\<close>

lemma digit_is_digit: "d < 10 \<Longrightarrow> is_digit (digit d)"
  unfolding is_digit_def digit_def by (rule nth_mem) simp

lemma digit_inj: "d < 10 \<Longrightarrow> e < 10 \<Longrightarrow> digit d = digit e \<Longrightarrow> d = e"
proof -
  assume a: "d < 10" "e < 10" "digit d = digit e"
  have "distinct ''0123456789''" by simp
  moreover have "d < length ''0123456789''" "e < length ''0123456789''" using a by simp_all
  ultimately show ?thesis using a(3) unfolding digit_def by (simp only: nth_eq_iff_index_eq)
qed

lemma show_nat_digits: "list_all is_digit (show_nat n)"
proof (induction n rule: show_nat.induct)
  case (1 n)
  show ?case
  proof (cases "n < 10")
    case True
    then show ?thesis by (subst show_nat.simps) (simp add: digit_is_digit)
  next
    case False
    then show ?thesis using 1 by (subst show_nat.simps) (simp add: digit_is_digit)
  qed
qed

lemma show_nat_not_Nil: "show_nat n \<noteq> []"
  by (subst show_nat.simps) simp

lemma show_nat_inj: "show_nat a = show_nat b \<Longrightarrow> a = b"
proof (induction a arbitrary: b rule: show_nat.induct)
  case (1 a)
  show ?case
  proof (cases "a < 10")
    case True
    show ?thesis
    proof (cases "b < 10")
      case b: True
      from 1(2) have "[digit a] = [digit b]"
        using True b by (simp add: show_nat.simps[of a] show_nat.simps[of b])
      then show ?thesis using digit_inj True b by simp
    next
      case b: False
      from 1(2) have "[digit a] = show_nat (b div 10) @ [digit (b mod 10)]"
        using True b by (simp add: show_nat.simps[of a] show_nat.simps[of b])
      then show ?thesis using show_nat_not_Nil[of "b div 10"] by simp
    qed
  next
    case False
    show ?thesis
    proof (cases "b < 10")
      case b: True
      from 1(2) have "show_nat (a div 10) @ [digit (a mod 10)] = [digit b]"
        using False b by (simp add: show_nat.simps[of a] show_nat.simps[of b])
      then show ?thesis using show_nat_not_Nil[of "a div 10"] by simp
    next
      case b: False
      from 1(2) have "show_nat (a div 10) @ [digit (a mod 10)] = show_nat (b div 10) @ [digit (b mod 10)]"
        using False b by (simp add: show_nat.simps[of a] show_nat.simps[of b])
      then have e: "show_nat (a div 10) = show_nat (b div 10)" "digit (a mod 10) = digit (b mod 10)"
        by simp_all
      have "a div 10 = b div 10" using 1(1)[OF False e(1)] .
      moreover have "a mod 10 = b mod 10" using digit_inj[OF _ _ e(2)] by simp
      ultimately show ?thesis by (metis div_mult_mod_eq)
    qed
  qed
qed

lemma colon_not_digit: "\<not> is_digit CHR '':''"
  by (simp add: is_digit_def)

lemma id_split:
  assumes "p @ ''::'' @ d = q @ ''::'' @ e" "list_all is_digit d" "list_all is_digit e"
  shows "p = q \<and> d = e"
proof -
  have tw: "takeWhile is_digit (rev u @ ''::'' @ v) = rev u" if "list_all is_digit u" for u v
  proof -
    have "takeWhile is_digit (rev u @ CHR '':'' # (CHR '':'' # v)) = takeWhile is_digit (rev u)"
      using colon_not_digit by (rule takeWhile_tail)
    also have "\<dots> = rev u" using that by (simp add: list_all_iff)
    finally show ?thesis by simp
  qed
  have "rev (p @ ''::'' @ d) = rev (q @ ''::'' @ e)" using assms(1) by simp
  then have "rev d @ ''::'' @ rev p = rev e @ ''::'' @ rev q" by simp
  then have "takeWhile is_digit (rev d @ ''::'' @ rev p) = takeWhile is_digit (rev e @ ''::'' @ rev q)"
    by (rule arg_cong)
  then have "rev d = rev e" using tw[OF assms(2)] tw[OF assms(3)] by simp
  then have "d = e" by simp
  with assms(1) show ?thesis by simp
qed

lemma kind_source_inj:
  "kind_prefix t1 @ s1 = kind_prefix t2 @ s2 \<Longrightarrow> t1 = t2 \<and> s1 = s2"
  by (cases t1; cases t2) (simp_all add: kind_prefix_def)

lemma id_formedD:
  assumes "id_formed r"
  shows "\<exists>d. id_f r = (kind_prefix (type_f r) @ source r) @ ''::'' @ d \<and> list_all is_digit d"
proof -
  let ?p = "kind_prefix (type_f r) @ source r @ ''::''"
  from assms have "take (length ?p) (id_f r) = ?p" "list_all is_digit (drop (length ?p) (id_f r))"
    by (simp_all add: id_formed_def Let_def)
  moreover have "id_f r = take (length ?p) (id_f r) @ drop (length ?p) (id_f r)" by simp
  ultimately have "id_f r = ?p @ drop (length ?p) (id_f r)" by metis
  with \<open>list_all is_digit (drop (length ?p) (id_f r))\<close> show ?thesis by auto
qed

lemma id_formedI:
  assumes "id_f r = (kind_prefix (type_f r) @ source r) @ ''::'' @ d" "list_all is_digit d"
  shows "id_formed r"
  using assms by (simp add: id_formed_def Let_def)

lemma batch_fields:
  "r \<in> set (batch ty s chunks embs) \<Longrightarrow>
     type_f r = ty \<and> source r = s \<and> (\<exists>i. id_f r = (kind_prefix ty @ s) @ ''::'' @ show_nat i)"
  by (auto simp: batch_def new_record_def)

lemma batch_formed: "list_all id_formed (batch ty s chunks embs)"
  unfolding list_all_iff
proof
  fix r assume "r \<in> set (batch ty s chunks embs)"
  from batch_fields[OF this] obtain i where
    "type_f r = ty" "source r = s" "id_f r = (kind_prefix ty @ s) @ ''::'' @ show_nat i" by blast
  then show "id_formed r" using show_nat_digits[of i] by (intro id_formedI[of _ "show_nat i"]) simp_all
qed

lemma batch_distinct: "distinct (map id_f (batch ty s chunks embs))"
proof -
  have "map id_f (batch ty s chunks embs) =
        map (\<lambda>i. (kind_prefix ty @ s) @ ''::'' @ show_nat i) [0 ..< length chunks]"
    by (simp add: batch_def new_record_def comp_def)
  moreover have "inj (\<lambda>i. (kind_prefix ty @ s) @ ''::'' @ show_nat i)"
    by (rule injI) (simp add: show_nat_inj)
  
  then have "inj_on (\<lambda>i. (kind_prefix ty @ s) @ ''::'' @ show_nat i) (set [0 ..< length chunks])"
    by (rule inj_on_subset) simp
  ultimately show ?thesis by (simp only: distinct_map distinct_upt simp_thms)
qed

lemma append_batch_ok:
  assumes "index_ok its" and fresh: "\<forall>r \<in> set its. \<not> (type_f r = ty \<and> source r = s)"
  shows "index_ok (its @ batch ty s chunks embs)"
proof -
  have "id_f r \<noteq> id_f n" if r: "r \<in> set its" and n: "n \<in> set (batch ty s chunks embs)" for r n
  proof
    assume eq: "id_f r = id_f n"
    from assms(1) r have "id_formed r" by (simp add: index_ok_def list_all_iff)
    from id_formedD[OF this] obtain d where
      d: "id_f r = (kind_prefix (type_f r) @ source r) @ ''::'' @ d" "list_all is_digit d" by blast
    from batch_fields[OF n] obtain i where
      i: "id_f n = (kind_prefix ty @ s) @ ''::'' @ show_nat i" by blast
    from id_split[of "kind_prefix (type_f r) @ source r" d "kind_prefix ty @ s" "show_nat i"]
      eq d i show_nat_digits[of i]
    have "kind_prefix (type_f r) @ source r = kind_prefix ty @ s" by simp
    from kind_source_inj[OF this] fresh r show False by blast
  qed
  then have "set (map id_f its) \<inter> set (map id_f (batch ty s chunks embs)) = {}" by auto
  then show ?thesis using assms(1) batch_formed[of ty s chunks embs] batch_distinct[of ty s chunks embs]
    by (simp add: index_ok_def)
qed

lemma filter_index_ok: "index_ok its \<Longrightarrow> index_ok (filter P its)"
  by (auto simp: index_ok_def list_all_iff distinct_map_filter)


lemma chunkText_default_total: "\<exists>cs. chunkText_default t = Some cs"
  unfolding chunkText_default_def using chunkText_closed[of 200 800 t] by simp

lemma embedAndAppend_items:
  "items (fst (embedAndAppend x st chunks \<lparr>idPrefix = kind_prefix ty @ s, meta_source = s, meta_type = ty\<rparr>)) = items st
   \<or> (\<exists>embs. items (fst (embedAndAppend x st chunks \<lparr>idPrefix = kind_prefix ty @ s, meta_source = s, meta_type = ty\<rparr>))
         = items st @ batch ty s chunks embs)"
  by (cases "embed_api x chunks")
     (auto simp: embedAndAppend_def Let_def log_call_def saveIndex_def batch_def)

lemma embedAndAppend_ok:
  assumes "index_ok (items st)" "\<forall>r \<in> set (items st). \<not> (type_f r = ty \<and> source r = s)"
  shows "index_ok (items (fst (embedAndAppend x st chunks
            \<lparr>idPrefix = kind_prefix ty @ s, meta_source = s, meta_type = ty\<rparr>)))"
  using embedAndAppend_items[of x st chunks ty s] append_batch_ok[OF assms] assms(1) by auto

lemma embedAndAppend_sources:
  "r \<in> set (items (fst (embedAndAppend x st chunks
       \<lparr>idPrefix = kind_prefix ty @ s, meta_source = s, meta_type = ty\<rparr>))) \<Longrightarrow>
   r \<in> set (items st) \<or> (type_f r = ty \<and> source r = s)"
  using embedAndAppend_items[of x st chunks ty s] batch_fields[of r ty s chunks] by auto

lemma add_url_ok:
  assumes "index_ok (items st)" "\<forall>r \<in> set (items st). \<not> (type_f r = Url \<and> source r = trim u)"
  shows "\<exists>st' r. add_url x (Some u) st = Some (st', r) \<and> index_ok (items st')"
proof (cases "trim u = []")
  case True
  then show ?thesis using assms(1) by (simp add: add_url_def)
next
  case False
  show ?thesis
  proof (cases "fetchText_api x (trim u)")
    case (Inl e)
    then show ?thesis using False assms(1) by (simp add: add_url_def log_call_def)
  next
    case (Inr t)
    obtain cs where cs: "chunkText_default t = Some cs" using chunkText_default_total by blast
    let ?st = "log_call (FetchCall (trim u)) st"
    let ?m = "\<lparr>idPrefix = kind_prefix Url @ trim u, meta_source = trim u, meta_type = Url\<rparr>"
    have it: "items ?st = items st" by (simp add: log_call_def)
    have ok: "index_ok (items (fst (embedAndAppend x ?st cs ?m)))"
      by (rule embedAndAppend_ok) (simp_all add: it assms)
    have kp: "kind_prefix Url = ''url:''" by (simp add: kind_prefix_def)
    obtain st' res where e: "embedAndAppend x ?st cs ?m = (st', res)" by (cases "embedAndAppend x ?st cs ?m")
    with ok have "index_ok (items st')" by simp
    then show ?thesis using False Inr cs e
      by (cases res) (simp_all add: add_url_def Let_def kp[symmetric])
  qed
qed

lemma upload_loop_ok:
  assumes "index_ok (items st)" "distinct (map safeName fs)"
    "\<forall>f \<in> set fs. \<forall>r \<in> set (items st). \<not> (type_f r = File \<and> source r = safeName f)"
  shows "\<exists>st' res. upload_loop x fs n st = Some (st', res) \<and> index_ok (items st')"
  using assms
proof (induction fs arbitrary: n st)
  case Nil
  then show ?case by simp
next
  case (Cons f fs)
  show ?case
  proof (cases "extracted f")
    case (Inl e)
    then show ?thesis using Cons.prems(1) by simp
  next
    case (Inr t)
    obtain cs where cs: "chunkText_default t = Some cs" using chunkText_default_total by blast
    let ?m = "\<lparr>idPrefix = kind_prefix File @ safeName f, meta_source = safeName f, meta_type = File\<rparr>"
    have kp: "kind_prefix File = ''file:''" by (simp add: kind_prefix_def)
    have ok: "index_ok (items (fst (embedAndAppend x st cs ?m)))"
      by (rule embedAndAppend_ok) (use Cons.prems in simp_all)
    obtain st' res where e: "embedAndAppend x st cs ?m = (st', res)" by (cases "embedAndAppend x st cs ?m")
    with ok have ok': "index_ok (items st')" by simp
    show ?thesis
    proof (cases res)
      case (Inl err)
      then show ?thesis using Inr cs e ok' by (simp add: kp[symmetric])
    next
      case (Inr added)
      have fresh: "\<forall>g \<in> set fs. \<forall>r \<in> set (items st'). \<not> (type_f r = File \<and> source r = safeName g)"
      proof (intro ballI)
        fix g r assume g: "g \<in> set fs" and r: "r \<in> set (items st')"
        from r e have "r \<in> set (items (fst (embedAndAppend x st cs ?m)))" by simp
        from embedAndAppend_sources[OF this]
        have "r \<in> set (items st) \<or> (type_f r = File \<and> source r = safeName f)" .
        moreover have "safeName g \<noteq> safeName f"
        proof -
          have "safeName f \<notin> set (map safeName fs)" using Cons.prems(2) by simp
          moreover have "safeName g \<in> set (map safeName fs)" using g by simp
          ultimately show ?thesis by metis
        qed
        ultimately show "\<not> (type_f r = File \<and> source r = safeName g)"
          using Cons.prems(3) g by auto
      qed
      have "distinct (map safeName fs)" using Cons.prems(2) by simp
      from Cons.IH[OF ok' this fresh, of "n + added"] show ?thesis
        using \<open>extracted f = Inr t\<close> cs e Inr by (simp add: kp[symmetric])
    qed
  qed
qed

lemma upload_ok:
  assumes "index_ok (items st)" "distinct (map safeName fs)"
    "\<forall>f \<in> set fs. \<forall>r \<in> set (items st). \<not> (type_f r = File \<and> source r = safeName f)"
  shows "\<exists>st' r. upload x fs st = Some (st', r) \<and> index_ok (items st')"
proof (cases "fs = []")
  case True
  then show ?thesis using assms(1) by (simp add: upload_def)
next
  case False
  from upload_loop_ok[OF assms, of x 0] obtain st' res where
    "upload_loop x fs 0 st = Some (st', res)" "index_ok (items st')" by blast
  then show ?thesis using False by (cases res) (simp_all add: upload_def)
qed


lemma rebuild_urls_ok:
  assumes "index_ok acc" "distinct urls" "\<forall>r \<in> set acc. type_f r = Url \<longrightarrow> source r \<notin> set urls"
  shows "\<exists>st' acc'. rebuild_urls x urls st acc = Some (st', acc') \<and> index_ok acc' \<and>
           (\<forall>r \<in> set acc'. r \<in> set acc \<or> type_f r = Url)"
  using assms
proof (induction urls arbitrary: st acc)
  case Nil
  then show ?case by simp
next
  case (Cons u urls)
  have d: "distinct urls" and un: "u \<notin> set urls" using Cons.prems(2) by simp_all
  have keep: "\<forall>r \<in> set acc. type_f r = Url \<longrightarrow> source r \<notin> set urls" using Cons.prems(3) by simp
  show ?case
  proof (cases "fetchText_api x u")
    case (Inl e)
    from Cons.IH[OF Cons.prems(1) d keep, of "log_call (FetchCall u) st"] Inl show ?thesis by simp
  next
    case (Inr t)
    obtain cs where cs: "chunkText_default t = Some cs" using chunkText_default_total by blast
    let ?st = "log_call (EmbedCall cs) (log_call (FetchCall u) st)"
    show ?thesis
    proof (cases "embed_api x cs")
      case (Inl e)
      from Cons.IH[OF Cons.prems(1) d keep, of ?st] Inr cs Inl show ?thesis by simp
    next
      case embs: (Inr embs)
      let ?acc = "acc @ batch Url u cs embs"
      have ok: "index_ok ?acc"
        by (rule append_batch_ok[OF Cons.prems(1)]) (use Cons.prems(3) in auto)
      have keep': "\<forall>r \<in> set ?acc. type_f r = Url \<longrightarrow> source r \<notin> set urls"
        using keep un batch_fields[of _ Url u cs embs] by auto
      from Cons.IH[OF ok d keep', of ?st] obtain st' acc' where
        r: "rebuild_urls x urls ?st ?acc = Some (st', acc')" "index_ok acc'"
           "\<forall>r \<in> set acc'. r \<in> set ?acc \<or> type_f r = Url" by blast
      have "\<forall>r \<in> set acc'. r \<in> set acc \<or> type_f r = Url"
        using r(3) batch_fields[of _ Url u cs embs] by auto
      moreover have "rebuild_urls x (u # urls) st acc = rebuild_urls x urls ?st ?acc"
        using Inr cs embs by (simp add: batch_def kind_prefix_def)
      ultimately show ?thesis using r(1,2) by simp
    qed
  qed
qed

lemma rebuild_files_ok:
  assumes "index_ok acc" "distinct (map entry_name (filter isFile fs))"
    "\<forall>r \<in> set acc. type_f r = File \<longrightarrow> source r \<notin> entry_name ` set (filter isFile fs)"
  shows "\<exists>st' acc'. rebuild_files x fs st acc = Some (st', acc') \<and> index_ok acc'"
  using assms
proof (induction fs arbitrary: st acc)
  case Nil
  then show ?case by simp
next
  case (Cons f fs)
  show ?case
  proof (cases "isFile f")
    case False
    with Cons.IH[of acc st] Cons.prems show ?thesis by simp
  next
    case True
    have d: "distinct (map entry_name (filter isFile fs))"
      and un: "entry_name f \<notin> entry_name ` set (filter isFile fs)"
      using Cons.prems(2) True by simp_all
    have keep: "\<forall>r \<in> set acc. type_f r = File \<longrightarrow> source r \<notin> entry_name ` set (filter isFile fs)"
      using Cons.prems(3) True by simp
    have here: "\<forall>r \<in> set acc. \<not> (type_f r = File \<and> source r = entry_name f)"
      using Cons.prems(3) True by auto
    show ?thesis
    proof (cases "entry_text f")
      case (Inl e)
      from Cons.IH[OF Cons.prems(1) d keep, of st] True Inl show ?thesis by simp
    next
      case (Inr t)
      obtain cs where cs: "chunkText_default t = Some cs" using chunkText_default_total by blast
      let ?st = "log_call (EmbedCall cs) st"
      show ?thesis
      proof (cases "embed_api x cs")
        case (Inl e)
        from Cons.IH[OF Cons.prems(1) d keep, of ?st] True Inr cs Inl show ?thesis by simp
      next
        case embs: (Inr embs)
        let ?acc = "acc @ batch File (entry_name f) cs embs"
        have ok: "index_ok ?acc" by (rule append_batch_ok[OF Cons.prems(1) here])
        have keep': "\<forall>r \<in> set ?acc. type_f r = File \<longrightarrow>
                       source r \<notin> entry_name ` set (filter isFile fs)"
          using keep un batch_fields[of _ File "entry_name f" cs embs] by auto
        from Cons.IH[OF ok d keep', of ?st] obtain st' acc' where
          r: "rebuild_files x fs ?st ?acc = Some (st', acc')" "index_ok acc'" by blast
        moreover have "rebuild_files x (f # fs) st acc = rebuild_files x fs ?st ?acc"
          using True Inr cs embs by (simp add: batch_def kind_prefix_def)
        ultimately show ?thesis by simp
      qed
    qed
  qed
qed

lemma rebuild_ok:
  assumes "distinct urls" "distinct (map entry_name (filter isFile files))"
  shows "\<exists>st' r. rebuild x urls files st = Some (st', r) \<and> index_ok (items st')"
proof -
  have e: "index_ok []" by (simp add: index_ok_def)
  from rebuild_urls_ok[OF e assms(1), of x st] obtain st1 acc1 where
    u: "rebuild_urls x urls st [] = Some (st1, acc1)" "index_ok acc1"
       "\<forall>r \<in> set acc1. type_f r = Url" by auto
  have "\<forall>r \<in> set acc1. type_f r = File \<longrightarrow> source r \<notin> entry_name ` set (filter isFile files)"
    using u(3) by auto
  from rebuild_files_ok[OF u(2) assms(2) this, of x st1] obtain st2 acc2 where
    f: "rebuild_files x files st1 acc1 = Some (st2, acc2)" "index_ok acc2" by blast
  show ?thesis using u(1) f by (simp add: rebuild_def rebuildFromDisk_def saveIndex_def)
qed

text \<open>
  C5, as amended. Call an index well formed when every identifier is
  \<^verbatim>\<open><kind>:<source>::<digits>\<close> for the kind and the source of its record and no two
  identifiers are equal. A well-formed index stays well formed under deleting a source;
  under adding a URL of which the index holds no record; under an upload whose files have
  distinct names of which the index holds no record; and a rebuild from distinct URLs and
  distinct file names yields a well-formed index from any index. Each of these mutations
  returns.
\<close>

theorem index_ids_distinct:
  assumes "index_ok (items st)"
  shows "distinct (map id_f (items st)) \<and>
     index_ok (items (fst (delete_source q st))) \<and>
     ((\<forall>r \<in> set (items st). \<not> (type_f r = Url \<and> source r = trim u)) \<longrightarrow>
        (\<exists>st' r. add_url x (Some u) st = Some (st', r) \<and> index_ok (items st'))) \<and>
     (distinct (map safeName fs) \<and>
      (\<forall>f \<in> set fs. \<forall>r \<in> set (items st). \<not> (type_f r = File \<and> source r = safeName f)) \<longrightarrow>
        (\<exists>st' r. upload x fs st = Some (st', r) \<and> index_ok (items st'))) \<and>
     (distinct urls \<and> distinct (map entry_name (filter isFile files)) \<longrightarrow>
        (\<exists>st' r. rebuild x urls files st = Some (st', r) \<and> index_ok (items st')))"
proof -
  have c1: "distinct (map id_f (items st))" using assms by (simp add: index_ok_def)
  have c2: "index_ok (items (fst (delete_source q st)))"
    using assms filter_index_ok[of "items st"]
    by (simp add: delete_source_def Let_def saveIndex_def)
  show ?thesis
    using c1 c2 add_url_ok[OF assms, of u x] upload_ok[OF assms, of fs x] rebuild_ok[of urls files x st]
    by blast
qed

text \<open>
  An index that holds the one record of \<^verbatim>\<open>http://x\<close>, and the URL \<^verbatim>\<open>http://y\<close> sent with a
  space and a no-break space around it: the request appends the first record of
  \<^verbatim>\<open>http://y\<close>.
\<close>

theorem index_ids_distinct_witness:
  "index_ok (items \<lparr>items = [\<lparr>id_f = ''url:http://x::0'', source = ''http://x'', type_f = Url, text_f = ''hello'', embedding = [Fin 1]\<rparr>],
      disk = [], calls = []\<rparr>) \<and>
   trim ([CHR 0x20] @ ''http://y'' @ [CHR 0xA0]) = ''http://y'' \<and>
   filter (\<lambda>r. type_f r = Url \<and> source r = trim ([CHR 0x20] @ ''http://y'' @ [CHR 0xA0]))
     (items \<lparr>items = [\<lparr>id_f = ''url:http://x::0'', source = ''http://x'', type_f = Url, text_f = ''hello'', embedding = [Fin 1]\<rparr>],
      disk = [], calls = []\<rparr>) = [] \<and>
   (\<exists>st' r. add_url \<lparr>embed_api = \<lambda>ts. Inr (map (\<lambda>t. [Fin 1]) ts), embedQuery_api = \<lambda>q. Inr [Fin 1],
      complete_api = \<lambda>q ts. Inr ''ok'', fetchText_api = \<lambda>u. Inr ''hello'', sort_impl = \<lambda>xs. xs\<rparr>
       (Some ([CHR 0x20] @ ''http://y'' @ [CHR 0xA0])) \<lparr>items = [\<lparr>id_f = ''url:http://x::0'', source = ''http://x'', type_f = Url, text_f = ''hello'', embedding = [Fin 1]\<rparr>],
      disk = [], calls = []\<rparr> = Some (st', r) \<and>
       index_ok (items st')) \<and>
   map_option (\<lambda>p. map id_f (items (fst p)))
     (add_url \<lparr>embed_api = \<lambda>ts. Inr (map (\<lambda>t. [Fin 1]) ts), embedQuery_api = \<lambda>q. Inr [Fin 1],
      complete_api = \<lambda>q ts. Inr ''ok'', fetchText_api = \<lambda>u. Inr ''hello'', sort_impl = \<lambda>xs. xs\<rparr>
       (Some ([CHR 0x20] @ ''http://y'' @ [CHR 0xA0])) \<lparr>items = [\<lparr>id_f = ''url:http://x::0'', source = ''http://x'', type_f = Url, text_f = ''hello'', embedding = [Fin 1]\<rparr>],
      disk = [], calls = []\<rparr>) =
     Some [''url:http://x::0'', ''url:http://y::0'']"
proof -
  let ?st = "\<lparr>items = [\<lparr>id_f = ''url:http://x::0'', source = ''http://x'', type_f = Url, text_f = ''hello'', embedding = [Fin 1]\<rparr>],
      disk = [], calls = []\<rparr>"
  let ?x = "\<lparr>embed_api = \<lambda>ts. Inr (map (\<lambda>t. [Fin 1]) ts), embedQuery_api = \<lambda>q. Inr [Fin 1],
      complete_api = \<lambda>q ts. Inr ''ok'', fetchText_api = \<lambda>u. Inr ''hello'', sort_impl = \<lambda>xs. xs\<rparr>"
  let ?u = "[CHR 0x20] @ ''http://y'' @ [CHR 0xA0]"
  have t: "trim ?u = ''http://y''" by (simp add: trim_def is_space_def)
  have ok: "index_ok (items ?st)"
    by (simp add: index_ok_def id_formed_def kind_prefix_def is_digit_def)
  have new: "\<forall>r \<in> set (items ?st). \<not> (type_f r = Url \<and> source r = trim ?u)"
    by (simp only: t) simp
  note g = index_ids_distinct[of ?st, OF ok]
  have "\<exists>st' r. add_url ?x (Some ?u) ?st = Some (st', r) \<and> index_ok (items st')"
    using g[of _ ?u ?x, THEN conjunct2, THEN conjunct2, THEN conjunct1] new by (rule mp)
  moreover have "map_option (\<lambda>p. map id_f (items (fst p))) (add_url ?x (Some ?u) ?st) =
     Some [''url:http://x::0'', ''url:http://y::0'']"
    by (simp add: add_url_def t chunkText_default_def chunkText_def
        chunk_loop.simps slice_js_def embedAndAppend_def new_record_def show_nat.simps digit_def
        log_call_def saveIndex_def json_def Let_def del: append.simps)
  moreover have "filter (\<lambda>r. type_f r = Url \<and> source r = trim ?u) (items ?st) = []"
    by (simp only: t) simp
  ultimately show ?thesis using ok t by (intro conjI)
qed

text \<open>
  C5 as stated fails when a URL is added twice: the second request appends a record with
  the identifier the first one made.
\<close>

theorem index_ids_distinct_counterexample:
  "map_option (\<lambda>p. map id_f (items (fst p)))
     (Option.bind
        (add_url \<lparr>embed_api = \<lambda>ts. Inr (map (\<lambda>t. [Fin 1]) ts), embedQuery_api = \<lambda>q. Inr [Fin 1],
      complete_api = \<lambda>q ts. Inr ''ok'', fetchText_api = \<lambda>u. Inr ''hello'', sort_impl = \<lambda>xs. xs\<rparr>
           (Some ''http://x'') \<lparr>items = [], disk = [], calls = []\<rparr>)
        (\<lambda>p. add_url \<lparr>embed_api = \<lambda>ts. Inr (map (\<lambda>t. [Fin 1]) ts), embedQuery_api = \<lambda>q. Inr [Fin 1],
      complete_api = \<lambda>q ts. Inr ''ok'', fetchText_api = \<lambda>u. Inr ''hello'', sort_impl = \<lambda>xs. xs\<rparr>
           (Some ''http://x'') (fst p))) =
   Some [''url:http://x::0'', ''url:http://x::0'']"
  by (simp add: add_url_def trim_def is_space_def chunkText_default_def chunkText_def
      chunk_loop.simps slice_js_def embedAndAppend_def new_record_def show_nat.simps digit_def
      log_call_def saveIndex_def json_def Let_def)


end
